theory Spec2Isabelle
  imports Complex_Main "HOL-Library.Multiset"
begin

section \<open>Data model of \<^verbatim>\<open>unfolder.go\<close>\<close>

text \<open>
  Go's \<^verbatim>\<open>int\<close> is modelled as \<open>int\<close>: the only arithmetic the code does on
  indices is \<^verbatim>\<open>(i+1) % vCount\<close> with \<open>i\<close> below the length of a slice, which cannot
  overflow. A \<^verbatim>\<open>float64\<close> is kept abstract as a type variable \<open>'r\<close>; the code read here
  uses nothing of it but its zero value. Where Go reuses a field name the model adds a
  suffix: \<^verbatim>\<open>Vertices\<close> is \<open>Vertices\<close> in a face, \<open>Vertices_poly\<close> in a polyhedron and
  \<open>Vertices_2D\<close> in a \<^verbatim>\<open>Face2D\<close>; the field \<^verbatim>\<open>Face2D\<close> of the result is \<open>Face2Ds\<close>; the
  coordinates carry their dimension.
\<close>

datatype 'r Vector3 = Vector3 (X3: 'r) (Y3: 'r) (Z3: 'r)

datatype 'r Point2 = Point2 (X2: 'r) (Y2: 'r)

record Face =
  Vertices :: "int list"

record 'r Polyhedron =
  Vertices_poly :: "'r Vector3 list"
  Faces :: "Face list"
  Name :: string

record FaceNeighbor =
  FaceIndex :: int
  SharedEdge :: "int \<times> int"
  ThisFaceEdge :: "int \<times> int"

record FaceAdjacency =
  Neighbors :: "int \<rightharpoonup> FaceNeighbor list"

record 'r Face2D =
  Vertices_2D :: "'r Point2 list"

record 'r UnfoldResult =
  Vertex2D :: "'r Point2 list"
  Face2Ds :: "'r Face2D list"
  SpanningTree :: "int list"

text \<open>
  Outcomes. \<open>Err\<close> is a returned Go \<^verbatim>\<open>error\<close> value, \<open>Panic\<close> a runtime fault that
  unwinds the call. The constructors of \<open>error\<close> are the messages of the source:
  \<open>NoFaces\<close> is "polyhedron has no faces", \<open>FewVertices\<close> is "face has fewer than 3
  vertices", \<open>EdgeNotFound\<close> is "edge not found in face"; the three wrappers are the
  \<^verbatim>\<open>fmt.Errorf\<close> calls of \<^verbatim>\<open>UnfoldMesh\<close>. \<open>Geometry\<close> stands for an error returned by
  the placement code that is not part of the file.
\<close>

datatype fault = IndexOutOfRange | MakeSliceLen

datatype error =
    NoFaces
  | FewVertices
  | EdgeNotFound
  | Geometry string
  | AdjacencyFailed error
  | RootFailed error
  | AdjacentFailed int int error

datatype 'a result = Ok 'a | Err error | Panic fault

text \<open>Reading a Go map of slices: a missing key yields the nil slice.\<close>

definition lookupList :: "('k \<rightharpoonup> 'v list) \<Rightarrow> 'k \<Rightarrow> 'v list" where
  "lookupList m k = (case m k of None \<Rightarrow> [] | Some xs \<Rightarrow> xs)"

definition inRange :: "int \<Rightarrow> 'a list \<Rightarrow> bool" where
  "inRange i xs = (0 \<le> i \<and> i < int (length xs))"

section \<open>1) Build face adjacency\<close>

definition sortPair :: "int \<Rightarrow> int \<Rightarrow> int \<times> int" where
  "sortPair a b = (if a < b then (a, b) else (b, a))"

text \<open>The key of the edge that starts at slot \<open>i\<close> of a vertex loop.\<close>

definition edgeAt :: "int list \<Rightarrow> nat \<Rightarrow> int \<times> int" where
  "edgeAt vs i = sortPair (vs ! i) (vs ! ((i + 1) mod length vs))"

definition findEdgeInFace :: "Face \<Rightarrow> int \<times> int \<Rightarrow> (int \<times> int) result" where
  "findEdgeInFace face sortedEdge =
     (let vCount = length (Vertices face) in
      case find (\<lambda>i. edgeAt (Vertices face) i = sortedEdge) [0..<vCount] of
        Some i \<Rightarrow> Ok (int i, int ((i + 1) mod vCount))
      | None \<Rightarrow> Err EdgeNotFound)"

type_synonym edgeMap = "int \<times> int \<rightharpoonup> int list"

text \<open>The first loop: \<^verbatim>\<open>edgeMap[edge] = append(edgeMap[edge], fIdx)\<close>.\<close>

definition addEdge :: "int \<Rightarrow> int \<times> int \<Rightarrow> edgeMap \<Rightarrow> edgeMap" where
  "addEdge fIdx edge em = em(edge \<mapsto> lookupList em edge @ [fIdx])"

definition populateFace :: "int \<Rightarrow> Face \<Rightarrow> edgeMap \<Rightarrow> edgeMap" where
  "populateFace fIdx face em =
     fold (\<lambda>i. addEdge fIdx (edgeAt (Vertices face) i)) [0..<length (Vertices face)] em"

definition populate :: "Face list \<Rightarrow> edgeMap" where
  "populate faces =
     fold (\<lambda>k. populateFace (int k) (faces ! k)) [0..<length faces] Map.empty"

definition appendNeighbor ::
  "int \<Rightarrow> FaceNeighbor \<Rightarrow> (int \<rightharpoonup> FaceNeighbor list) \<Rightarrow> (int \<rightharpoonup> FaceNeighbor list)" where
  "appendNeighbor f nbr adj = adj(f \<mapsto> lookupList adj f @ [nbr])"

text \<open>
  The body of the second loop, for one key of the edge map. \<^verbatim>\<open>poly.Faces[f0]\<close> is an
  indexed read and faults out of range; a failed \<^verbatim>\<open>findEdgeInFace\<close> is the
  \<^verbatim>\<open>continue\<close> of the source.
\<close>

definition emitEdge ::
  "Face list \<Rightarrow> edgeMap \<Rightarrow> int \<times> int \<Rightarrow> (int \<rightharpoonup> FaceNeighbor list) \<Rightarrow>
   (int \<rightharpoonup> FaceNeighbor list) result" where
  "emitEdge faces em edge adj =
     (let faceList = lookupList em edge in
      if length faceList = 2 then
        (let f0 = faceList ! 0; f1 = faceList ! 1 in
         if \<not> inRange f0 faces \<or> \<not> inRange f1 faces then Panic IndexOutOfRange
         else
           (case (findEdgeInFace (faces ! nat f0) edge, findEdgeInFace (faces ! nat f1) edge) of
              (Ok face0Edge, Ok face1Edge) \<Rightarrow>
                Ok (appendNeighbor f1
                      \<lparr>FaceIndex = f0, SharedEdge = edge, ThisFaceEdge = face1Edge\<rparr>
                      (appendNeighbor f0
                         \<lparr>FaceIndex = f1, SharedEdge = edge, ThisFaceEdge = face0Edge\<rparr> adj))
            | _ \<Rightarrow> Ok adj))
      else Ok adj)"

text \<open>
  The second loop ranges over a Go map, whose iteration order the language leaves
  unspecified and the runtime randomises. \<open>order\<close> is the sequence in which one run
  yields the keys.
\<close>

fun emitAll ::
  "Face list \<Rightarrow> edgeMap \<Rightarrow> (int \<times> int) list \<Rightarrow> (int \<rightharpoonup> FaceNeighbor list) \<Rightarrow>
   (int \<rightharpoonup> FaceNeighbor list) result" where
  "emitAll faces em [] adj = Ok adj"
| "emitAll faces em (edge # rest) adj =
     (case emitEdge faces em edge adj of
        Ok adj' \<Rightarrow> emitAll faces em rest adj'
      | Err e \<Rightarrow> Err e
      | Panic p \<Rightarrow> Panic p)"

definition BuildFaceAdjacency :: "'r Polyhedron \<Rightarrow> (int \<times> int) list \<Rightarrow> FaceAdjacency result" where
  "BuildFaceAdjacency poly order =
     (case emitAll (Faces poly) (populate (Faces poly)) order Map.empty of
        Ok adj \<Rightarrow> Ok \<lparr>Neighbors = adj\<rparr>
      | Err e \<Rightarrow> Err e
      | Panic p \<Rightarrow> Panic p)"

text \<open>An iteration order of a run: every key of the edge map, once.\<close>

definition validOrder :: "'r Polyhedron \<Rightarrow> (int \<times> int) list \<Rightarrow> bool" where
  "validOrder poly order = (distinct order \<and> set order = dom (populate (Faces poly)))"

section \<open>2) Pick a spanning tree\<close>

text \<open>
  The inner loop of the breadth-first search, over the neighbour list of \<open>current\<close>.
  The state is \<open>(visited, parent, queue)\<close>; \<^verbatim>\<open>visited[nbr.FaceIndex]\<close> and
  \<^verbatim>\<open>parent[nbr.FaceIndex]\<close> are indexed accesses.
\<close>

fun visitNeighbors ::
  "int \<Rightarrow> FaceNeighbor list \<Rightarrow> bool list \<times> int list \<times> int list \<Rightarrow>
   (bool list \<times> int list \<times> int list) result" where
  "visitNeighbors current [] s = Ok s"
| "visitNeighbors current (nbr # rest) (visited, parent, queue) =
     (if \<not> inRange (FaceIndex nbr) visited then Panic IndexOutOfRange
      else if \<not> visited ! nat (FaceIndex nbr) then
        (if \<not> inRange (FaceIndex nbr) parent then Panic IndexOutOfRange
         else visitNeighbors current rest
                (visited[nat (FaceIndex nbr) := True],
                 parent[nat (FaceIndex nbr) := current],
                 queue @ [FaceIndex nbr]))
      else visitNeighbors current rest (visited, parent, queue))"

definition unset :: "bool list \<Rightarrow> nat" where
  "unset bs = length (filter Not bs)"

lemma unset_update:
  "i < length bs \<Longrightarrow> \<not> bs ! i \<Longrightarrow> Suc (unset (bs[i := True])) = unset bs"
  unfolding unset_def
proof (induction bs arbitrary: i)
  case Nil
  then show ?case by simp
next
  case (Cons b bs)
  then show ?case by (cases i) auto
qed

lemma visitNeighbors_measure:
  "visitNeighbors current nbrs (visited, parent, queue) = Ok (visited', parent', queue') \<Longrightarrow>
   unset visited' + length queue' = unset visited + length queue"
proof (induction nbrs arbitrary: visited parent queue)
  case Nil
  then show ?case by simp
next
  case (Cons nbr rest)
  show ?case
  proof (cases "visited ! nat (FaceIndex nbr)")
    case True
    with Cons show ?thesis by (auto split: if_splits)
  next
    case False
    with Cons.prems have r: "inRange (FaceIndex nbr) visited"
      and step: "visitNeighbors current rest
                (visited[nat (FaceIndex nbr) := True], parent[nat (FaceIndex nbr) := current],
                 queue @ [FaceIndex nbr]) = Ok (visited', parent', queue')"
      by (auto split: if_splits)
    from r have "nat (FaceIndex nbr) < length visited" by (auto simp: inRange_def)
    from unset_update[OF this False] Cons.IH[OF step] show ?thesis by simp
  qed
qed

function bfsLoop :: "FaceAdjacency \<Rightarrow> bool list \<Rightarrow> int list \<Rightarrow> int list \<Rightarrow> int list result" where
  "bfsLoop adj visited parent [] = Ok parent"
| "bfsLoop adj visited parent (current # queue) =
     (case visitNeighbors current (lookupList (Neighbors adj) current) (visited, parent, queue) of
        Ok (visited', parent', queue') \<Rightarrow> bfsLoop adj visited' parent' queue'
      | Err e \<Rightarrow> Err e
      | Panic p \<Rightarrow> Panic p)"
  by pat_completeness auto
termination
proof (relation "measure (\<lambda>(adj, visited, parent, queue). unset visited + length queue)")
  show "wf (measure (\<lambda>(adj, visited, parent, queue). unset visited + length queue))" by simp
next
  fix adj :: FaceAdjacency and visited parent current queue x1 visited' x2 parent' queue'
  assume "visitNeighbors current (lookupList (Neighbors adj) current) (visited, parent, queue) = Ok x1"
    and "(visited', x2) = x1" and "(parent', queue') = x2"
  then have "visitNeighbors current (lookupList (Neighbors adj) current) (visited, parent, queue) =
      Ok (visited', parent', queue')" by simp
  from visitNeighbors_measure[OF this]
  show "((adj, visited', parent', queue'), (adj, visited, parent, current # queue))
      \<in> measure (\<lambda>(adj, visited, parent, queue). unset visited + length queue)"
    by simp
qed

definition BuildFaceSpanningTree :: "FaceAdjacency \<Rightarrow> int \<Rightarrow> int \<Rightarrow> int list result" where
  "BuildFaceSpanningTree adj rootFace nFaces =
     (if nFaces < 0 then Panic MakeSliceLen
      else
        (let parent = replicate (nat nFaces) (- 1);
             visited = replicate (nat nFaces) False
         in if \<not> inRange rootFace visited then Panic IndexOutOfRange
            else bfsLoop adj (visited[nat rootFace := True]) parent [rootFace]))"

section \<open>3) Face-by-face unfolding\<close>

text \<open>
  \<^verbatim>\<open>unfolder.go\<close> ends inside \<^verbatim>\<open>placeRootFace\<close>, in the line that computes
  \<^verbatim>\<open>yAxis\<close>. The vector helpers \<^verbatim>\<open>sub\<close>, \<^verbatim>\<open>cross\<close> and \<^verbatim>\<open>normalize\<close>, the remainder of
  \<^verbatim>\<open>placeRootFace\<close> and the whole of \<^verbatim>\<open>placeAdjacentFace\<close> are therefore parameters of
  the model, collected in a record. \<^verbatim>\<open>placeRootFace\<close> and \<^verbatim>\<open>placeAdjacentFace\<close> write
  through \<^verbatim>\<open>&face2Ds[i]\<close> and into the slice \<^verbatim>\<open>vertex2D\<close>; the model has them return the
  new \<^verbatim>\<open>Face2D\<close> and the new \<^verbatim>\<open>vertex2D\<close>. (In Go the callee cannot change the length
  of the caller's slice; the model does not restrict the list that is returned.)
\<close>

record 'r Kernel =
  sub :: "'r Vector3 \<Rightarrow> 'r Vector3 \<Rightarrow> 'r Vector3"
  cross :: "'r Vector3 \<Rightarrow> 'r Vector3 \<Rightarrow> 'r Vector3"
  normalize_vec :: "'r Vector3 \<Rightarrow> 'r Vector3"
  placeRootRest ::
    "'r Polyhedron \<Rightarrow> int \<Rightarrow> 'r Vector3 \<Rightarrow> 'r Vector3 \<Rightarrow> 'r Vector3 \<Rightarrow> 'r Point2 list \<Rightarrow>
     ('r Face2D \<times> 'r Point2 list) result"
  placeAdjacentFace ::
    "'r Polyhedron \<Rightarrow> int \<Rightarrow> int \<Rightarrow> 'r Point2 list \<Rightarrow> FaceNeighbor \<Rightarrow>
     ('r Face2D \<times> 'r Point2 list) result"

text \<open>
  \<^verbatim>\<open>placeRootFace\<close> as far as the file has it: the vertex count check, the three
  indexed reads of \<^verbatim>\<open>poly.Vertices\<close>, and the axes. No test stands between the count
  check and \<^verbatim>\<open>normalize(e01)\<close>. The line of \<^verbatim>\<open>yAxis\<close> is cut after \<^verbatim>\<open>cros\<close>; the model
  reads it as the cross product of the normal and the x-axis, as the comment above it
  says. \<open>placeRootRest\<close>, the code after that line, receives the origin and the two axes.
\<close>

definition placeRootFace ::
  "'r Kernel \<Rightarrow> 'r Polyhedron \<Rightarrow> int \<Rightarrow> 'r Point2 list \<Rightarrow> ('r Face2D \<times> 'r Point2 list) result" where
  "placeRootFace K poly faceIdx vertex2D =
     (if \<not> inRange faceIdx (Faces poly) then Panic IndexOutOfRange
      else
        (let face = Faces poly ! nat faceIdx;
             vCount = length (Vertices face)
         in if vCount < 3 then Err FewVertices
            else if \<not> inRange (Vertices face ! 0) (Vertices_poly poly)
                  \<or> \<not> inRange (Vertices face ! 1) (Vertices_poly poly)
                  \<or> \<not> inRange (Vertices face ! 2) (Vertices_poly poly)
            then Panic IndexOutOfRange
            else
              (let p0 = Vertices_poly poly ! nat (Vertices face ! 0);
                   p1 = Vertices_poly poly ! nat (Vertices face ! 1);
                   p2 = Vertices_poly poly ! nat (Vertices face ! 2);
                   e01 = sub K p1 p0;
                   e02 = sub K p2 p0;
                   xAxis = normalize_vec K e01;
                   normal = normalize_vec K (cross K e01 e02);
                   yAxis = cross K normal xAxis
               in placeRootRest K poly faceIdx p0 xAxis yAxis vertex2D)))"

text \<open>
  The inner loop of \<^verbatim>\<open>UnfoldMesh\<close>, over the neighbour list of \<open>fIdx\<close>. The state is
  \<open>(placed, face2Ds, vertex2D, queue)\<close>. Go evaluates \<^verbatim>\<open>parent[nfIdx] == fIdx\<close> before
  \<^verbatim>\<open>!placed[nfIdx]\<close>.
\<close>

fun placeNeighbors ::
  "'r Kernel \<Rightarrow> 'r Polyhedron \<Rightarrow> int list \<Rightarrow> int \<Rightarrow> FaceNeighbor list \<Rightarrow>
   bool list \<times> 'r Face2D list \<times> 'r Point2 list \<times> int list \<Rightarrow>
   (bool list \<times> 'r Face2D list \<times> 'r Point2 list \<times> int list) result" where
  "placeNeighbors K poly parent fIdx [] s = Ok s"
| "placeNeighbors K poly parent fIdx (nbr # rest) (placed, face2Ds, vertex2D, queue) =
     (let nfIdx = FaceIndex nbr in
      if \<not> inRange nfIdx parent then Panic IndexOutOfRange
      else if parent ! nat nfIdx = fIdx then
        (if \<not> inRange nfIdx placed then Panic IndexOutOfRange
         else if \<not> placed ! nat nfIdx then
           (if \<not> inRange nfIdx face2Ds then Panic IndexOutOfRange
            else
              (case placeAdjacentFace K poly fIdx nfIdx vertex2D nbr of
                 Err e \<Rightarrow> Err (AdjacentFailed nfIdx fIdx e)
               | Panic p \<Rightarrow> Panic p
               | Ok (face2D, vertex2D') \<Rightarrow>
                   placeNeighbors K poly parent fIdx rest
                     (placed[nat nfIdx := True], face2Ds[nat nfIdx := face2D], vertex2D',
                      queue @ [nfIdx])))
         else placeNeighbors K poly parent fIdx rest (placed, face2Ds, vertex2D, queue))
      else placeNeighbors K poly parent fIdx rest (placed, face2Ds, vertex2D, queue))"

lemma placeNeighbors_measure:
  "placeNeighbors K poly parent fIdx nbrs (placed, face2Ds, vertex2D, queue) =
     Ok (placed', face2Ds', vertex2D', queue') \<Longrightarrow>
   unset placed' + length queue' = unset placed + length queue"
proof (induction nbrs arbitrary: placed face2Ds vertex2D queue)
  case Nil
  then show ?case by simp
next
  case (Cons nbr rest)
  let ?n = "nat (FaceIndex nbr)"
  show ?case
  proof (cases "parent ! ?n = fIdx \<and> \<not> placed ! ?n")
    case False
    with Cons show ?thesis by (auto simp: Let_def split: if_splits)
  next
    case True
    with Cons.prems obtain face2D v2 where r: "inRange (FaceIndex nbr) placed"
      and step: "placeNeighbors K poly parent fIdx rest
          (placed[?n := True], face2Ds[?n := face2D], v2, queue @ [FaceIndex nbr]) =
          Ok (placed', face2Ds', vertex2D', queue')"
      by (auto simp: Let_def split: if_splits result.splits)
    from r have "?n < length placed" by (auto simp: inRange_def)
    from unset_update[OF this] True Cons.IH[OF step] show ?thesis by simp
  qed
qed

function unfoldLoop ::
  "'r Kernel \<Rightarrow> 'r Polyhedron \<Rightarrow> FaceAdjacency \<Rightarrow> int list \<Rightarrow>
   bool list \<Rightarrow> 'r Face2D list \<Rightarrow> 'r Point2 list \<Rightarrow> int list \<Rightarrow> 'r UnfoldResult result" where
  "unfoldLoop K poly adjacency parent placed face2Ds vertex2D [] =
     Ok \<lparr>Vertex2D = vertex2D, Face2Ds = face2Ds, SpanningTree = parent\<rparr>"
| "unfoldLoop K poly adjacency parent placed face2Ds vertex2D (fIdx # queue) =
     (case placeNeighbors K poly parent fIdx (lookupList (Neighbors adjacency) fIdx)
             (placed, face2Ds, vertex2D, queue) of
        Ok (placed', face2Ds', vertex2D', queue') \<Rightarrow>
          unfoldLoop K poly adjacency parent placed' face2Ds' vertex2D' queue'
      | Err e \<Rightarrow> Err e
      | Panic p \<Rightarrow> Panic p)"
  by pat_completeness auto
termination
proof (relation "measure (\<lambda>(K, poly, adjacency, parent, placed, face2Ds, vertex2D, queue).
                   unset placed + length queue)")
  show "wf (measure (\<lambda>(K :: 'r Kernel, poly :: 'r Polyhedron, adjacency :: FaceAdjacency,
                       parent :: int list, placed, face2Ds :: 'r Face2D list,
                       vertex2D :: 'r Point2 list, queue :: int list).
                   unset placed + length queue))"
    by simp
next
  fix K :: "'r Kernel" and poly :: "'r Polyhedron" and adjacency :: FaceAdjacency
    and parent placed and face2Ds :: "'r Face2D list" and vertex2D :: "'r Point2 list"
    and fIdx queue x1 placed' x2 and face2Ds' :: "'r Face2D list" and x3
    and vertex2D' :: "'r Point2 list" and queue'
  assume "placeNeighbors K poly parent fIdx (lookupList (Neighbors adjacency) fIdx)
            (placed, face2Ds, vertex2D, queue) = Ok x1"
    and "(placed', x2) = x1" and "(face2Ds', x3) = x2" and "(vertex2D', queue') = x3"
  then have "placeNeighbors K poly parent fIdx (lookupList (Neighbors adjacency) fIdx)
            (placed, face2Ds, vertex2D, queue) = Ok (placed', face2Ds', vertex2D', queue')"
    by simp
  from placeNeighbors_measure[OF this]
  show "((K, poly, adjacency, parent, placed', face2Ds', vertex2D', queue'),
         (K, poly, adjacency, parent, placed, face2Ds, vertex2D, fIdx # queue))
      \<in> measure (\<lambda>(K, poly, adjacency, parent, placed, face2Ds, vertex2D, queue).
                   unset placed + length queue)"
    by simp
qed

text \<open>
  \<^verbatim>\<open>UnfoldMesh\<close>. \<^verbatim>\<open>make\<close> fills \<^verbatim>\<open>face2Ds\<close> with \<^verbatim>\<open>Face2D{}\<close> (a nil slice) and
  \<^verbatim>\<open>vertex2D\<close> with \<^verbatim>\<open>Point2{0, 0}\<close>.
\<close>

definition UnfoldMesh ::
  "('r :: zero) Kernel \<Rightarrow> 'r Polyhedron \<Rightarrow> int \<Rightarrow> (int \<times> int) list \<Rightarrow> 'r UnfoldResult result" where
  "UnfoldMesh K poly rootFace order =
     (if length (Faces poly) = 0 then Err NoFaces
      else
        (case BuildFaceAdjacency poly order of
           Err e \<Rightarrow> Err (AdjacencyFailed e)
         | Panic p \<Rightarrow> Panic p
         | Ok adjacency \<Rightarrow>
             (let nFaces = length (Faces poly);
                  nVerts = length (Vertices_poly poly)
              in case BuildFaceSpanningTree adjacency rootFace (int nFaces) of
                   Err e \<Rightarrow> Err e
                 | Panic p \<Rightarrow> Panic p
                 | Ok parent \<Rightarrow>
                     (let placed = replicate nFaces False;
                          face2Ds = replicate nFaces \<lparr>Vertices_2D = []\<rparr>;
                          vertex2D = replicate nVerts (Point2 0 0)
                      in if \<not> inRange rootFace placed then Panic IndexOutOfRange
                         else
                           (case placeRootFace K poly rootFace vertex2D of
                              Err e \<Rightarrow> Err (RootFailed e)
                            | Panic p \<Rightarrow> Panic p
                            | Ok (face2D, vertex2D') \<Rightarrow>
                                unfoldLoop K poly adjacency parent
                                  (placed[nat rootFace := True])
                                  (face2Ds[nat rootFace := face2D]) vertex2D' [rootFace])))))"

section \<open>The placement code, from the specification\<close>

text \<open>
  Modelled from the spec: the vector helpers \<^verbatim>\<open>sub\<close>, \<^verbatim>\<open>cross\<close>, \<^verbatim>\<open>normalize\<close>, the part
  of \<^verbatim>\<open>placeRootFace\<close> after the axes, and \<^verbatim>\<open>placeAdjacentFace\<close>, none of which is in
  the file. The definitions follow section 4.3 of the specification (root placement
  and propagation, steps 1 to 5). \<^verbatim>\<open>float64\<close> is idealised as \<open>real\<close>: rounding, NaN
  and infinities are not represented, and \<open>x / 0\<close> is \<open>0\<close> in HOL where Go yields NaN or
  an infinity. This kernel only instantiates the parameter \<open>K\<close> at concrete meshes whose
  coordinates are 0 or 1 and whose faces are not degenerate, where real and
  floating-point arithmetic agree; the general theorems about \<^verbatim>\<open>UnfoldMesh\<close> below hold
  for every \<open>K\<close>.
\<close>

definition sub_spec :: "real Vector3 \<Rightarrow> real Vector3 \<Rightarrow> real Vector3" where
  "sub_spec a b = Vector3 (X3 a - X3 b) (Y3 a - Y3 b) (Z3 a - Z3 b)"

text \<open>Modelled from the spec: the dot product, for the projections and lengths.\<close>

definition dot_spec :: "real Vector3 \<Rightarrow> real Vector3 \<Rightarrow> real" where
  "dot_spec a b = X3 a * X3 b + Y3 a * Y3 b + Z3 a * Z3 b"

text \<open>Modelled from the spec: \<^verbatim>\<open>cross\<close>, "the cross product of the first two edge vectors".\<close>

definition cross_spec :: "real Vector3 \<Rightarrow> real Vector3 \<Rightarrow> real Vector3" where
  "cross_spec a b =
     Vector3 (Y3 a * Z3 b - Z3 a * Y3 b) (Z3 a * X3 b - X3 a * Z3 b) (X3 a * Y3 b - Y3 a * X3 b)"

text \<open>Modelled from the spec: \<^verbatim>\<open>normalize\<close>, the vector divided by its length.\<close>

definition normalize_spec :: "real Vector3 \<Rightarrow> real Vector3" where
  "normalize_spec a =
     (let l = sqrt (dot_spec a a) in Vector3 (X3 a / l) (Y3 a / l) (Z3 a / l))"

text \<open>Modelled from the spec: "project every vertex of the root face onto this basis".\<close>

definition project_spec ::
  "real Vector3 \<Rightarrow> real Vector3 \<Rightarrow> real Vector3 \<Rightarrow> real Vector3 \<Rightarrow> real Point2" where
  "project_spec p0 xAxis yAxis p =
     Point2 (dot_spec (sub_spec p p0) xAxis) (dot_spec (sub_spec p p0) yAxis)"

text \<open>
  Modelled from the spec: "assign those into ... the global vertex to Point2 table", one
  indexed write per vertex of the face, in loop order (the last writer wins).
\<close>

fun writeVertices :: "int list \<Rightarrow> 'r Point2 list \<Rightarrow> 'r Point2 list \<Rightarrow> 'r Point2 list result" where
  "writeVertices (v # vs) (pt # pts) vertex2D =
     (if \<not> inRange v vertex2D then Panic IndexOutOfRange
      else writeVertices vs pts (vertex2D[nat v := pt]))"
| "writeVertices vs pts vertex2D = Ok vertex2D"

text \<open>
  Modelled from the spec: the remainder of \<^verbatim>\<open>placeRootFace\<close>, which projects the vertices
  of the root face and assigns them to the face's own list and to the global table.
\<close>

definition placeRootRest_spec ::
  "real Polyhedron \<Rightarrow> int \<Rightarrow> real Vector3 \<Rightarrow> real Vector3 \<Rightarrow> real Vector3 \<Rightarrow> real Point2 list \<Rightarrow>
   (real Face2D \<times> real Point2 list) result" where
  "placeRootRest_spec poly faceIdx p0 xAxis yAxis vertex2D =
     (let face = Faces poly ! nat faceIdx in
      if \<exists>v \<in> set (Vertices face). \<not> inRange v (Vertices_poly poly) then Panic IndexOutOfRange
      else
        (let pts = map (\<lambda>v. project_spec p0 xAxis yAxis (Vertices_poly poly ! nat v)) (Vertices face)
         in case writeVertices (Vertices face) pts vertex2D of
              Ok vertex2D' \<Rightarrow> Ok (\<lparr>Vertices_2D = pts\<rparr>, vertex2D')
            | Err e \<Rightarrow> Err e
            | Panic p \<Rightarrow> Panic p))"

text \<open>
  Modelled from the spec, propagation step 1: the candidate placement of a child face in
  its own plane basis, built "exactly as for the root"; a zero-length first edge is the
  specification's \<open>InvalidGeometry\<close>.
\<close>

definition candidate_spec :: "real Polyhedron \<Rightarrow> int \<Rightarrow> real Point2 list result" where
  "candidate_spec poly faceIdx =
     (if \<not> inRange faceIdx (Faces poly) then Panic IndexOutOfRange
      else
        (let face = Faces poly ! nat faceIdx in
         if length (Vertices face) < 3 then Err FewVertices
         else if \<exists>v \<in> set (Vertices face). \<not> inRange v (Vertices_poly poly)
         then Panic IndexOutOfRange
         else
           (let p0 = Vertices_poly poly ! nat (Vertices face ! 0);
                p1 = Vertices_poly poly ! nat (Vertices face ! 1);
                p2 = Vertices_poly poly ! nat (Vertices face ! 2);
                e01 = sub_spec p1 p0;
                e02 = sub_spec p2 p0;
                xAxis = normalize_spec e01;
                normal = normalize_spec (cross_spec e01 e02);
                yAxis = cross_spec normal xAxis
            in if dot_spec e01 e01 = 0 then Err (Geometry ''zero-length edge'')
               else Ok (map (\<lambda>v. project_spec p0 xAxis yAxis (Vertices_poly poly ! nat v))
                          (Vertices face)))))"

text \<open>
  Modelled from the spec, propagation steps 2 to 4: the rotation and translation that
  carry the candidate positions \<open>ca\<close>, \<open>cb\<close> of the hinge's endpoints onto their assigned
  positions \<open>ta\<close>, \<open>tb\<close>, without mirroring.
\<close>

definition rigid_spec ::
  "real Point2 \<Rightarrow> real Point2 \<Rightarrow> real Point2 \<Rightarrow> real Point2 \<Rightarrow> real Point2 \<Rightarrow> real Point2" where
  "rigid_spec ca cb ta tb p =
     (let dcx = X2 cb - X2 ca; dcy = Y2 cb - Y2 ca;
          dtx = X2 tb - X2 ta; dty = Y2 tb - Y2 ta;
          n = sqrt (dcx * dcx + dcy * dcy) * sqrt (dtx * dtx + dty * dty);
          c = (dcx * dtx + dcy * dty) / n;
          s = (dcx * dty - dcy * dtx) / n;
          px = X2 p - X2 ca; py = Y2 p - Y2 ca
      in Point2 (X2 ta + c * px - s * py) (Y2 ta + s * px + c * py))"

text \<open>
  Modelled from the spec: \<^verbatim>\<open>placeAdjacentFace\<close>, propagation steps 1 to 5. The hinge is
  the shared edge of the neighbour entry; its endpoints are looked up in the child's loop
  and in the global table.
\<close>

definition placeAdjacentFace_spec ::
  "real Polyhedron \<Rightarrow> int \<Rightarrow> int \<Rightarrow> real Point2 list \<Rightarrow> FaceNeighbor \<Rightarrow>
   (real Face2D \<times> real Point2 list) result" where
  "placeAdjacentFace_spec poly fIdx nfIdx vertex2D nbr =
     (case candidate_spec poly nfIdx of
        Err e \<Rightarrow> Err e
      | Panic p \<Rightarrow> Panic p
      | Ok cand \<Rightarrow>
          (let face = Faces poly ! nat nfIdx;
               slots = [0..<length (Vertices face)];
               va = fst (SharedEdge nbr);
               vb = snd (SharedEdge nbr)
           in case (find (\<lambda>i. Vertices face ! i = va) slots,
                    find (\<lambda>i. Vertices face ! i = vb) slots) of
                (Some ia, Some ib) \<Rightarrow>
                  if \<not> inRange va vertex2D \<or> \<not> inRange vb vertex2D then Panic IndexOutOfRange
                  else
                    (let ca = cand ! ia; cb = cand ! ib;
                         ta = vertex2D ! nat va; tb = vertex2D ! nat vb
                     in if ca = cb \<or> ta = tb then Err (Geometry ''zero-length edge'')
                        else
                          (let pts = map (rigid_spec ca cb ta tb) cand
                           in case writeVertices (Vertices face) pts vertex2D of
                                Ok vertex2D' \<Rightarrow> Ok (\<lparr>Vertices_2D = pts\<rparr>, vertex2D')
                              | Err e \<Rightarrow> Err e
                              | Panic p \<Rightarrow> Panic p))
              | _ \<Rightarrow> Err (Geometry ''shared edge not in face'')))"

text \<open>Modelled from the spec: the five missing parts together.\<close>

definition specKernel :: "real Kernel" where
  "specKernel =
     \<lparr>sub = sub_spec, cross = cross_spec, normalize_vec = normalize_spec,
      placeRootRest = placeRootRest_spec, placeAdjacentFace = placeAdjacentFace_spec\<rparr>"

section \<open>Notions used in the statements\<close>

text \<open>
  The face graph: \<open>(f, g)\<close> is an edge when the neighbour list of \<open>f\<close> has an entry that
  names \<open>g\<close>. For a symmetric adjacency the faces reachable from the root are its
  connected component.
\<close>

definition faceEdge :: "FaceAdjacency \<Rightarrow> (int \<times> int) set" where
  "faceEdge adj = {(f, g). \<exists>nbr \<in> set (lookupList (Neighbors adj) f). FaceIndex nbr = g}"

text \<open>
  \<open>parentPath parent f ps r\<close>: following parent links from \<open>f\<close> visits the faces \<open>ps\<close> in
  turn and ends at \<open>r\<close>; every link read is an entry of the array.
\<close>

fun parentPath :: "int list \<Rightarrow> int \<Rightarrow> int list \<Rightarrow> int \<Rightarrow> bool" where
  "parentPath parent f [] r = (f = r)"
| "parentPath parent f (p # ps) r =
     (inRange f parent \<and> parent ! nat f = p \<and> parentPath parent p ps r)"

text \<open>
  All face indices that an adjacency names are below \<open>n\<close>. The adjacency that
  \<^verbatim>\<open>BuildFaceAdjacency\<close> builds for a mesh has this property for the number of its faces.
\<close>

definition wellFormed :: "FaceAdjacency \<Rightarrow> nat \<Rightarrow> bool" where
  "wellFormed adj n =
     (\<forall>f nbr. nbr \<in> set (lookupList (Neighbors adj) f) \<longrightarrow>
        0 \<le> FaceIndex nbr \<and> FaceIndex nbr < int n)"

text \<open>
  What one key of the edge map contributes to the neighbour list of a face, whatever the
  adjacency built so far.
\<close>

definition emitted :: "Face list \<Rightarrow> edgeMap \<Rightarrow> int \<times> int \<Rightarrow> int \<Rightarrow> FaceNeighbor list" where
  "emitted faces em edge f =
     (case emitEdge faces em edge Map.empty of Ok a \<Rightarrow> lookupList a f | _ \<Rightarrow> [])"

text \<open>
  Failures that come out of the placement code which is not in the file: a fault or an
  error of \<^verbatim>\<open>placeAdjacentFace\<close>, and of the remainder of \<^verbatim>\<open>placeRootFace\<close>.
\<close>

definition adjacentPanics :: "'r Kernel \<Rightarrow> 'r Polyhedron \<Rightarrow> fault \<Rightarrow> bool" where
  "adjacentPanics K poly f = (\<exists>a b v nbr. placeAdjacentFace K poly a b v nbr = Panic f)"

definition adjacentErrs :: "'r Kernel \<Rightarrow> 'r Polyhedron \<Rightarrow> error \<Rightarrow> bool" where
  "adjacentErrs K poly e =
     (\<exists>a b v nbr e'. placeAdjacentFace K poly a b v nbr = Err e' \<and> e = AdjacentFailed b a e')"




text \<open>
  The frame condition on the placement code: placing a face writes no entry of
  \<^verbatim>\<open>vertex2D\<close> but those of the face's own vertices, and keeps the length of the slice.
\<close>

definition sameOutside :: "Face \<Rightarrow> 'a list \<Rightarrow> 'a list \<Rightarrow> bool" where
  "sameOutside face v v' =
     (length v' = length v \<and>
      (\<forall>i. inRange i v \<longrightarrow> i \<notin> set (Vertices face) \<longrightarrow> v' ! nat i = v ! nat i))"

definition writesOnlyFace :: "'r Kernel \<Rightarrow> 'r Polyhedron \<Rightarrow> bool" where
  "writesOnlyFace K poly =
     ((\<forall>faceIdx p0 xAxis yAxis v face2D v'.
         placeRootRest K poly faceIdx p0 xAxis yAxis v = Ok (face2D, v') \<longrightarrow>
         sameOutside (Faces poly ! nat faceIdx) v v') \<and>
      (\<forall>fIdx nfIdx v nbr face2D v'.
         placeAdjacentFace K poly fIdx nfIdx v nbr = Ok (face2D, v') \<longrightarrow>
         sameOutside (Faces poly ! nat nfIdx) v v'))"

section \<open>Invariants of the loops\<close>

text \<open>
  The first loop of the adjacency builder: every face recorded under a key is a face of
  the mesh and has that key at one of its slots.
\<close>

definition emInv :: "Face list \<Rightarrow> edgeMap \<Rightarrow> bool" where
  "emInv faces em = (\<forall>edge f. f \<in> set (lookupList em edge) \<longrightarrow>
      inRange f faces \<and> (\<exists>i < length (Vertices (faces ! nat f)). edgeAt (Vertices (faces ! nat f)) i = edge))"

text \<open>
  The second loop: the adjacency is symmetric, and every entry sits on a key that the
  edge map records exactly twice, for the two faces of the entry.
\<close>

definition symAdj :: "(int \<rightharpoonup> FaceNeighbor list) \<Rightarrow> bool" where
  "symAdj adj = (\<forall>A nbr. nbr \<in> set (lookupList adj A) \<longrightarrow>
      (\<exists>nbr' \<in> set (lookupList adj (FaceIndex nbr)). FaceIndex nbr' = A \<and> SharedEdge nbr' = SharedEdge nbr))"

definition twoUses :: "edgeMap \<Rightarrow> (int \<rightharpoonup> FaceNeighbor list) \<Rightarrow> bool" where
  "twoUses em adj = (\<forall>A nbr. nbr \<in> set (lookupList adj A) \<longrightarrow>
      lookupList em (SharedEdge nbr) = [A, FaceIndex nbr] \<or>
      lookupList em (SharedEdge nbr) = [FaceIndex nbr, A])"

text \<open>
  The breadth-first search. \<open>visitedSet\<close> is the set of faces marked in a \<^verbatim>\<open>[]bool\<close>.
  \<open>treeInv\<close>: the root is marked and has no parent; unmarked faces have no parent; the
  parent of a marked face other than the root is marked and lists the face among its
  neighbours; every marked face has a path of parent links to the root and is reachable
  from it. \<open>closedExcept\<close>: marked faces outside \<open>S\<close> have all their neighbours marked.
\<close>

definition visitedSet :: "bool list \<Rightarrow> int set" where
  "visitedSet v = {f. inRange f v \<and> v ! nat f}"

definition treeInv :: "FaceAdjacency \<Rightarrow> int \<Rightarrow> bool list \<Rightarrow> int list \<Rightarrow> bool" where
  "treeInv adj rootFace v p =
     (length p = length v \<and> rootFace \<in> visitedSet v \<and> p ! nat rootFace = - 1 \<and>
      (\<forall>f. inRange f v \<longrightarrow> f \<notin> visitedSet v \<longrightarrow> p ! nat f = - 1) \<and>
      (\<forall>f \<in> visitedSet v. f \<noteq> rootFace \<longrightarrow>
          p ! nat f \<in> visitedSet v \<and> (p ! nat f, f) \<in> faceEdge adj) \<and>
      (\<forall>f \<in> visitedSet v. \<exists>ps. parentPath p f ps rootFace) \<and>
      (\<forall>f \<in> visitedSet v. (rootFace, f) \<in> (faceEdge adj)\<^sup>*))"

definition closedExcept :: "FaceAdjacency \<Rightarrow> bool list \<Rightarrow> int set \<Rightarrow> bool" where
  "closedExcept adj v S =
     (\<forall>f \<in> visitedSet v. f \<notin> S \<longrightarrow> (\<forall>g. (f, g) \<in> faceEdge adj \<longrightarrow> g \<in> visitedSet v))"

text \<open>
  The unfolding loop. Faces without a parent, the root apart, have the \<^verbatim>\<open>Face2D\<close> that
  \<^verbatim>\<open>make\<close> gave them; a vertex is untouched when all its faces are without a parent and
  are not the root, and untouched vertices have the \<^verbatim>\<open>Point2\<close> that \<^verbatim>\<open>make\<close> gave them.
\<close>

definition unplacedDefault :: "int list \<Rightarrow> int \<Rightarrow> 'r Face2D list \<Rightarrow> bool" where
  "unplacedDefault parent rootFace face2Ds =
     (\<forall>g. inRange g face2Ds \<longrightarrow> g \<noteq> rootFace \<longrightarrow> parent ! nat g = - 1 \<longrightarrow>
        face2Ds ! nat g = \<lparr>Vertices_2D = []\<rparr>)"

definition untouched :: "'r Polyhedron \<Rightarrow> int list \<Rightarrow> int \<Rightarrow> int \<Rightarrow> bool" where
  "untouched poly parent rootFace v =
     (\<forall>h. inRange h (Faces poly) \<longrightarrow> v \<in> set (Vertices (Faces poly ! nat h)) \<longrightarrow>
        h \<noteq> rootFace \<and> parent ! nat h = - 1)"

definition untouchedZero :: "('r :: zero) Polyhedron \<Rightarrow> int list \<Rightarrow> int \<Rightarrow> 'r Point2 list \<Rightarrow> bool" where
  "untouchedZero poly parent rootFace vertex2D =
     (length vertex2D = length (Vertices_poly poly) \<and>
      (\<forall>v. inRange v vertex2D \<longrightarrow> untouched poly parent rootFace v \<longrightarrow>
         vertex2D ! nat v = Point2 0 0))"

section \<open>Example meshes\<close>

text \<open>
  Two triangles hinged on the edge between vertices 1 and 2.
\<close>

definition twoTriangles :: "real Polyhedron" where
  "twoTriangles =
     \<lparr>Vertices_poly = [Vector3 0 0 0, Vector3 1 0 0, Vector3 0 1 0, Vector3 1 1 0],
      Faces = [\<lparr>Vertices = [0, 1, 2]\<rparr>, \<lparr>Vertices = [1, 3, 2]\<rparr>],
      Name = ''twoTriangles''\<rparr>"

text \<open>
  Three triangles on one edge, between vertices 0 and 1: a non-manifold edge.
\<close>

definition fan :: "real Polyhedron" where
  "fan =
     \<lparr>Vertices_poly = [Vector3 0 0 0, Vector3 1 0 0, Vector3 0 1 0, Vector3 0 0 1, Vector3 0 (- 1) 0],
      Faces = [\<lparr>Vertices = [0, 1, 2]\<rparr>, \<lparr>Vertices = [0, 1, 3]\<rparr>, \<lparr>Vertices = [0, 1, 4]\<rparr>],
      Name = ''fan''\<rparr>"

text \<open>
  One face whose loop runs along each of its two edges twice.
\<close>

definition doubledEdge :: "real Polyhedron" where
  "doubledEdge =
     \<lparr>Vertices_poly = [Vector3 0 0 0, Vector3 1 0 0, Vector3 1 1 0],
      Faces = [\<lparr>Vertices = [0, 1, 2, 1]\<rparr>],
      Name = ''doubledEdge''\<rparr>"

text \<open>
  The two hinged triangles and a third triangle that shares no edge with them, an
  iteration order of its edge map, the adjacency and the result of unfolding from face 0.
\<close>

definition looseFace :: "real Polyhedron" where
  "looseFace =
     \<lparr>Vertices_poly = [Vector3 0 0 0, Vector3 1 0 0, Vector3 0 1 0, Vector3 1 1 0,
                       Vector3 0 0 1, Vector3 1 0 1, Vector3 0 1 1],
      Faces = [\<lparr>Vertices = [0, 1, 2]\<rparr>, \<lparr>Vertices = [1, 3, 2]\<rparr>, \<lparr>Vertices = [4, 5, 6]\<rparr>],
      Name = ''looseFace''\<rparr>"

definition looseFaceOrder :: "(int \<times> int) list" where
  "looseFaceOrder = [(0, 1), (1, 2), (0, 2), (1, 3), (2, 3), (4, 5), (5, 6), (4, 6)]"

definition looseFaceAdjacency :: FaceAdjacency where
  "looseFaceAdjacency =
     \<lparr>Neighbors = [0 \<mapsto> [\<lparr>FaceIndex = 1, SharedEdge = (1, 2), ThisFaceEdge = (1, 2)\<rparr>],
                  1 \<mapsto> [\<lparr>FaceIndex = 0, SharedEdge = (1, 2), ThisFaceEdge = (2, 0)\<rparr>]]\<rparr>"

definition looseFaceResult :: "real UnfoldResult" where
  "looseFaceResult =
     \<lparr>Vertex2D = [Point2 0 0, Point2 1 0, Point2 0 1, Point2 1 1, Point2 0 0, Point2 0 0, Point2 0 0],
      Face2Ds = [\<lparr>Vertices_2D = [Point2 0 0, Point2 1 0, Point2 0 1]\<rparr>,
                 \<lparr>Vertices_2D = [Point2 1 0, Point2 1 1, Point2 0 1]\<rparr>,
                 \<lparr>Vertices_2D = []\<rparr>],
      SpanningTree = [- 1, 0, - 1]\<rparr>"

text \<open>
  The unit cube of the demonstration program (\<^verbatim>\<open>buildUnitCube\<close>), and two iteration orders
  of its edge map that differ in their first two keys.
\<close>

definition unitCube :: "real Polyhedron" where
  "unitCube =
     \<lparr>Vertices_poly = [Vector3 0 0 0, Vector3 1 0 0, Vector3 1 1 0, Vector3 0 1 0,
                       Vector3 0 0 1, Vector3 1 0 1, Vector3 1 1 1, Vector3 0 1 1],
      Faces = [\<lparr>Vertices = [0, 1, 2, 3]\<rparr>, \<lparr>Vertices = [4, 5, 6, 7]\<rparr>, \<lparr>Vertices = [0, 1, 5, 4]\<rparr>,
               \<lparr>Vertices = [1, 2, 6, 5]\<rparr>, \<lparr>Vertices = [2, 3, 7, 6]\<rparr>, \<lparr>Vertices = [3, 0, 4, 7]\<rparr>],
      Name = ''UnitCube''\<rparr>"

definition cubeOrder1 :: "(int \<times> int) list" where
  "cubeOrder1 = [(0, 1), (1, 2), (2, 3), (0, 3), (4, 5), (5, 6), (6, 7), (4, 7),
                 (1, 5), (0, 4), (2, 6), (3, 7)]"

definition cubeOrder2 :: "(int \<times> int) list" where
  "cubeOrder2 = [(1, 2), (0, 1), (2, 3), (0, 3), (4, 5), (5, 6), (6, 7), (4, 7),
                 (1, 5), (0, 4), (2, 6), (3, 7)]"



lemmas adjacency_eval =
  BuildFaceAdjacency_def populate_def populateFace_def addEdge_def edgeAt_def sortPair_def
  emitEdge_def findEdgeInFace_def lookupList_def appendNeighbor_def inRange_def Let_def

lemmas unfold_eval =
  UnfoldMesh_def BuildFaceSpanningTree_def specKernel_def placeRootFace_def placeRootRest_spec_def
  placeAdjacentFace_spec_def candidate_spec_def rigid_spec_def project_spec_def normalize_spec_def
  cross_spec_def dot_spec_def sub_spec_def

section \<open>Properties of the adjacency builder\<close>

lemma fold_inv: "P s \<Longrightarrow> (\<And>x s. x \<in> set xs \<Longrightarrow> P s \<Longrightarrow> P (f x s)) \<Longrightarrow> P (fold f xs s)"
  by (induction xs arbitrary: s) auto

lemma findEdgeInFace_Ok_iff:
  "(\<exists>slots. findEdgeInFace face edge = Ok slots) \<longleftrightarrow> (\<exists>i < length (Vertices face). edgeAt (Vertices face) i = edge)"
  apply (auto simp: findEdgeInFace_def Let_def find_None_iff find_Some_iff split: option.splits)
  done

lemma findEdgeInFace_cases:
  "findEdgeInFace face edge = Err EdgeNotFound \<or> (\<exists>slots. findEdgeInFace face edge = Ok slots)"
  by (auto simp: findEdgeInFace_def Let_def split: option.splits)

lemma emInv_empty: "emInv faces Map.empty"
  by (simp add: emInv_def lookupList_def)

lemma lookupList_addEdge:
  "lookupList (addEdge f e em) e' = (if e' = e then lookupList em e @ [f] else lookupList em e')"
  by (simp add: addEdge_def lookupList_def)

lemma emInv_addEdge:
  assumes "emInv faces em" "inRange f faces" "i < length (Vertices (faces ! nat f))"
  shows "emInv faces (addEdge f (edgeAt (Vertices (faces ! nat f)) i) em)"
  unfolding emInv_def
proof (intro allI impI)
  fix edge g
  assume g: "g \<in> set (lookupList (addEdge f (edgeAt (Vertices (faces ! nat f)) i) em) edge)"
  then have "g \<in> set (lookupList em edge) \<or> (g = f \<and> edge = edgeAt (Vertices (faces ! nat f)) i)"
    by (auto simp: lookupList_addEdge split: if_splits)
  then show "inRange g faces \<and>
      (\<exists>i < length (Vertices (faces ! nat g)). edgeAt (Vertices (faces ! nat g)) i = edge)"
    using assms unfolding emInv_def by blast
qed

lemma emInv_populateFace:
  "emInv faces em \<Longrightarrow> k < length faces \<Longrightarrow> emInv faces (populateFace (int k) (faces ! k) em)"
  unfolding populateFace_def
  apply (rule fold_inv[where P = "emInv faces"])
   apply assumption
  subgoal for x s
    using emInv_addEdge[of faces s "int k" x] by (simp add: inRange_def)
  done

lemma emInv_populate: "emInv faces (populate faces)"
  unfolding populate_def
  apply (rule fold_inv[where P = "emInv faces"])
   apply (rule emInv_empty)
  apply (rule emInv_populateFace)
   apply auto
  done

lemma lookupList_appendNeighbor:
  "lookupList (appendNeighbor f n adj) g = (if g = f then lookupList adj f @ [n] else lookupList adj g)"
  by (simp add: appendNeighbor_def lookupList_def)

text \<open>
  What one step of the second loop can do.
\<close>

lemma emitEdge_cases:
  "emitEdge faces em edge adj = Panic IndexOutOfRange \<or>
   emitEdge faces em edge adj = Ok adj \<or>
   (\<exists>f0 f1 e0 e1. lookupList em edge = [f0, f1] \<and> inRange f0 faces \<and> inRange f1 faces \<and>
      findEdgeInFace (faces ! nat f0) edge = Ok e0 \<and> findEdgeInFace (faces ! nat f1) edge = Ok e1 \<and>
      emitEdge faces em edge adj =
        Ok (appendNeighbor f1 \<lparr>FaceIndex = f0, SharedEdge = edge, ThisFaceEdge = e1\<rparr>
             (appendNeighbor f0 \<lparr>FaceIndex = f1, SharedEdge = edge, ThisFaceEdge = e0\<rparr> adj)))"
proof (cases "length (lookupList em edge) = 2")
  case False
  then show ?thesis by (simp add: emitEdge_def Let_def)
next
  case True
  then obtain f0 f1 where l: "lookupList em edge = [f0, f1]"
    by (cases "lookupList em edge"; cases "tl (lookupList em edge)") auto
  show ?thesis
    using findEdgeInFace_cases[of "faces ! nat f0" edge] findEdgeInFace_cases[of "faces ! nat f1" edge]
    by (auto simp: emitEdge_def Let_def l)
qed

lemma emitEdge_emInv_Ok:
  assumes "emInv faces em"
  shows "\<exists>adj'. emitEdge faces em edge adj = Ok adj'"
proof (cases "length (lookupList em edge) = 2")
  case False
  then show ?thesis by (simp add: emitEdge_def Let_def)
next
  case True
  then obtain f0 f1 where l: "lookupList em edge = [f0, f1]"
    by (cases "lookupList em edge"; cases "tl (lookupList em edge)") auto
  from assms l have r: "inRange f0 faces" "inRange f1 faces"
    unfolding emInv_def by (metis list.set_intros(1), metis list.set_intros(1,2))
  show ?thesis
    using findEdgeInFace_cases[of "faces ! nat f0" edge] findEdgeInFace_cases[of "faces ! nat f1" edge] r
    by (auto simp: emitEdge_def Let_def l)
qed

lemma emitAll_emInv_Ok:
  "emInv faces em \<Longrightarrow> \<exists>adj'. emitAll faces em order adj = Ok adj'"
proof (induction order arbitrary: adj)
  case Nil
  then show ?case by simp
next
  case (Cons edge rest)
  from emitEdge_emInv_Ok[OF Cons.prems] obtain adj1 where "emitEdge faces em edge adj = Ok adj1"
    by blast
  with Cons show ?case by simp
qed

lemma BuildFaceAdjacency_Ok: "\<exists>adj. BuildFaceAdjacency poly order = Ok adj"
  using emitAll_emInv_Ok[OF emInv_populate, of "Faces poly" order Map.empty]
  by (auto simp: BuildFaceAdjacency_def)

text \<open>
  An invariant of the second loop is an invariant of its result.
\<close>

lemma emitAll_inv:
  assumes "P adj"
    and step: "\<And>edge a a'. P a \<Longrightarrow> emitEdge faces em edge a = Ok a' \<Longrightarrow> P a'"
    and "emitAll faces em order adj = Ok adj'"
  shows "P adj'"
  using assms(1,3)
proof (induction order arbitrary: adj)
  case Nil
  then show ?case by simp
next
  case (Cons edge rest)
  from Cons.prems(2) obtain a1 where a1: "emitEdge faces em edge adj = Ok a1"
    and r: "emitAll faces em rest a1 = Ok adj'"
    by (auto split: result.splits)
  from step[OF Cons.prems(1) a1] have "P a1" .
  from Cons.IH[OF this r] show ?case .
qed

lemma mem_appendPair:
  "nbr \<in> set (lookupList (appendNeighbor f1 n1 (appendNeighbor f0 n0 a)) g) \<longleftrightarrow>
     nbr \<in> set (lookupList a g) \<or> (g = f0 \<and> nbr = n0) \<or> (g = f1 \<and> nbr = n1)"
  by (auto simp: lookupList_appendNeighbor)

lemma symAdj_appendPair:
  assumes "symAdj a"
  shows "symAdj (appendNeighbor f1 \<lparr>FaceIndex = f0, SharedEdge = edge, ThisFaceEdge = e1\<rparr>
             (appendNeighbor f0 \<lparr>FaceIndex = f1, SharedEdge = edge, ThisFaceEdge = e0\<rparr> a))"
  unfolding symAdj_def
proof (intro allI impI)
  fix A nbr
  let ?n0 = "\<lparr>FaceIndex = f1, SharedEdge = edge, ThisFaceEdge = e0\<rparr>"
  let ?n1 = "\<lparr>FaceIndex = f0, SharedEdge = edge, ThisFaceEdge = e1\<rparr>"
  let ?a' = "appendNeighbor f1 ?n1 (appendNeighbor f0 ?n0 a)"
  assume "nbr \<in> set (lookupList ?a' A)"
  then consider (old) "nbr \<in> set (lookupList a A)" | (n0) "A = f0" "nbr = ?n0" | (n1) "A = f1" "nbr = ?n1"
    unfolding mem_appendPair by blast
  then show "\<exists>nbr' \<in> set (lookupList ?a' (FaceIndex nbr)). FaceIndex nbr' = A \<and> SharedEdge nbr' = SharedEdge nbr"
  proof cases
    case old
    with assms obtain nbr' where "nbr' \<in> set (lookupList a (FaceIndex nbr))"
      "FaceIndex nbr' = A \<and> SharedEdge nbr' = SharedEdge nbr"
      unfolding symAdj_def by blast
    then show ?thesis unfolding Bex_def mem_appendPair by blast
  next
    case n0
    have "?n1 \<in> set (lookupList ?a' f1)" unfolding mem_appendPair by simp
    with n0 show ?thesis by (intro bexI[of _ ?n1]) simp_all
  next
    case n1
    have "?n0 \<in> set (lookupList ?a' f0)" unfolding mem_appendPair by simp
    with n1 show ?thesis by (intro bexI[of _ ?n0]) simp_all
  qed
qed

lemma symAdj_emitEdge:
  assumes "symAdj a" "emitEdge faces em edge a = Ok a'"
  shows "symAdj a'"
  using emitEdge_cases[of faces em edge a]
  by (elim disjE exE conjE) (use assms symAdj_appendPair[OF assms(1)] in simp_all)

lemma symAdj_emitAll:
  assumes "emitAll faces em order Map.empty = Ok adj"
  shows "symAdj adj"
proof (rule emitAll_inv[where P = symAdj, OF _ _ assms])
  show "symAdj Map.empty" by (simp add: symAdj_def lookupList_def)
qed (rule symAdj_emitEdge)

lemma twoUses_emitEdge:
  assumes "twoUses em a" "emitEdge faces em edge a = Ok a'"
  shows "twoUses em a'"
  using emitEdge_cases[of faces em edge a]
proof (elim disjE exE conjE)
  fix f0 f1 e0 e1
  assume l: "lookupList em edge = [f0, f1]"
    and "emitEdge faces em edge a =
        Ok (appendNeighbor f1 \<lparr>FaceIndex = f0, SharedEdge = edge, ThisFaceEdge = e1\<rparr>
             (appendNeighbor f0 \<lparr>FaceIndex = f1, SharedEdge = edge, ThisFaceEdge = e0\<rparr> a))"
  with assms(2) have a': "a' = appendNeighbor f1 \<lparr>FaceIndex = f0, SharedEdge = edge, ThisFaceEdge = e1\<rparr>
             (appendNeighbor f0 \<lparr>FaceIndex = f1, SharedEdge = edge, ThisFaceEdge = e0\<rparr> a)"
    by simp
  show ?thesis
    unfolding twoUses_def a' mem_appendPair
    using assms(1) l unfolding twoUses_def by auto
qed (use assms in simp_all)

lemma twoUses_emitAll:
  assumes "emitAll faces em order Map.empty = Ok adj"
  shows "twoUses em adj"
proof (rule emitAll_inv[where P = "twoUses em", OF _ _ assms])
  show "twoUses em Map.empty" by (simp add: twoUses_def lookupList_def)
qed (rule twoUses_emitEdge)

lemma adjacency_wellFormed:
  assumes "BuildFaceAdjacency poly order = Ok adj"
  shows "wellFormed adj (length (Faces poly))"
  unfolding wellFormed_def
proof (intro allI impI)
  fix f nbr assume m: "nbr \<in> set (lookupList (Neighbors adj) f)"
  from assms have e: "emitAll (Faces poly) (populate (Faces poly)) order Map.empty = Ok (Neighbors adj)"
    by (auto simp: BuildFaceAdjacency_def split: result.splits)
  from twoUses_emitAll[OF e] m have "FaceIndex nbr \<in> set (lookupList (populate (Faces poly)) (SharedEdge nbr))"
    unfolding twoUses_def by fastforce
  with emInv_populate[of "Faces poly"] have "inRange (FaceIndex nbr) (Faces poly)"
    unfolding emInv_def by blast
  then show "0 \<le> FaceIndex nbr \<and> FaceIndex nbr < int (length (Faces poly))"
    by (simp add: inRange_def)
qed

text \<open>
  Entries are never removed, and a key recorded twice gets its two entries.
\<close>

lemma emitEdge_mono:
  assumes "emitEdge faces em edge a = Ok a'" "nbr \<in> set (lookupList a A)"
  shows "nbr \<in> set (lookupList a' A)"
  using emitEdge_cases[of faces em edge a] assms
  by (elim disjE exE conjE) (auto simp: mem_appendPair)

lemma emitAll_mono:
  "emitAll faces em order a = Ok a' \<Longrightarrow> nbr \<in> set (lookupList a A) \<Longrightarrow> nbr \<in> set (lookupList a' A)"
proof (induction order arbitrary: a)
  case Nil
  then show ?case by simp
next
  case (Cons edge rest)
  from Cons.prems(1) obtain a1 where a1: "emitEdge faces em edge a = Ok a1"
    and r: "emitAll faces em rest a1 = Ok a'"
    by (auto split: result.splits)
  from Cons.IH[OF r emitEdge_mono[OF a1 Cons.prems(2)]] show ?case .
qed

lemma emitEdge_emits:
  assumes "emInv faces em" "lookupList em edge = [f0, f1]" "emitEdge faces em edge a = Ok a'"
  shows "\<exists>e0 e1. \<lparr>FaceIndex = f1, SharedEdge = edge, ThisFaceEdge = e0\<rparr> \<in> set (lookupList a' f0) \<and>
                 \<lparr>FaceIndex = f0, SharedEdge = edge, ThisFaceEdge = e1\<rparr> \<in> set (lookupList a' f1)"
proof -
  from assms(1,2) have r: "inRange f0 faces" "inRange f1 faces"
    unfolding emInv_def by (metis list.set_intros(1), metis list.set_intros(1,2))
  from assms(1,2) have "\<exists>i < length (Vertices (faces ! nat f0)). edgeAt (Vertices (faces ! nat f0)) i = edge"
    "\<exists>i < length (Vertices (faces ! nat f1)). edgeAt (Vertices (faces ! nat f1)) i = edge"
    unfolding emInv_def by (metis list.set_intros(1), metis list.set_intros(1,2))
  then obtain e0 e1 where f: "findEdgeInFace (faces ! nat f0) edge = Ok e0"
    "findEdgeInFace (faces ! nat f1) edge = Ok e1"
    using findEdgeInFace_Ok_iff by blast
  with assms(2,3) r have "a' = appendNeighbor f1 \<lparr>FaceIndex = f0, SharedEdge = edge, ThisFaceEdge = e1\<rparr>
             (appendNeighbor f0 \<lparr>FaceIndex = f1, SharedEdge = edge, ThisFaceEdge = e0\<rparr> a)"
    by (simp add: emitEdge_def)
  then have "\<lparr>FaceIndex = f1, SharedEdge = edge, ThisFaceEdge = e0\<rparr> \<in> set (lookupList a' f0)"
    "\<lparr>FaceIndex = f0, SharedEdge = edge, ThisFaceEdge = e1\<rparr> \<in> set (lookupList a' f1)"
    by (simp_all add: mem_appendPair)
  then show ?thesis by blast
qed

lemma emitAll_emits:
  assumes "emInv faces em" "lookupList em edge = [f0, f1]"
  shows "emitAll faces em order a = Ok a' \<Longrightarrow> edge \<in> set order \<Longrightarrow>
    \<exists>e0 e1. \<lparr>FaceIndex = f1, SharedEdge = edge, ThisFaceEdge = e0\<rparr> \<in> set (lookupList a' f0) \<and>
            \<lparr>FaceIndex = f0, SharedEdge = edge, ThisFaceEdge = e1\<rparr> \<in> set (lookupList a' f1)"
proof (induction order arbitrary: a)
  case Nil
  then show ?case by simp
next
  case (Cons k rest)
  from Cons.prems(1) obtain a1 where a1: "emitEdge faces em k a = Ok a1"
    and r: "emitAll faces em rest a1 = Ok a'"
    by (auto split: result.splits)
  show ?case
  proof (cases "k = edge")
    case True
    from emitEdge_emits[OF assms a1[unfolded True]] obtain e0 e1 where
      "\<lparr>FaceIndex = f1, SharedEdge = edge, ThisFaceEdge = e0\<rparr> \<in> set (lookupList a1 f0)"
      "\<lparr>FaceIndex = f0, SharedEdge = edge, ThisFaceEdge = e1\<rparr> \<in> set (lookupList a1 f1)"
      by blast
    then show ?thesis using emitAll_mono[OF r] by blast
  next
    case False
    with Cons.prems(2) have "edge \<in> set rest" by simp
    from Cons.IH[OF r this] show ?thesis .
  qed
qed

text \<open>
  The neighbour lists as multisets do not depend on the order of the keys.
\<close>

lemma lookupList_empty [simp]: "lookupList Map.empty k = []"
  by (simp add: lookupList_def)

lemma emitEdge_adds:
  assumes "emitEdge faces em edge a = Ok a'"
  shows "lookupList a' f = lookupList a f @ emitted faces em edge f"
proof (cases "length (lookupList em edge) = 2")
  case False
  with assms show ?thesis by (simp add: emitEdge_def emitted_def Let_def)
next
  case True
  then obtain f0 f1 where l: "lookupList em edge = [f0, f1]"
    by (cases "lookupList em edge"; cases "tl (lookupList em edge)") auto
  from assms l have r: "inRange f0 faces" "inRange f1 faces"
    by (auto simp: emitEdge_def Let_def split: if_splits)
  show ?thesis
    using findEdgeInFace_cases[of "faces ! nat f0" edge] findEdgeInFace_cases[of "faces ! nat f1" edge]
      assms r
    by (auto simp: emitEdge_def emitted_def Let_def l lookupList_appendNeighbor)
qed

lemma emitAll_adds:
  "emitAll faces em order a = Ok a' \<Longrightarrow>
   mset (lookupList a' f) = mset (lookupList a f) + (\<Sum>e \<in># mset order. mset (emitted faces em e f))"
proof (induction order arbitrary: a)
  case Nil
  then show ?case by simp
next
  case (Cons k rest)
  from Cons.prems obtain a1 where a1: "emitEdge faces em k a = Ok a1"
    and r: "emitAll faces em rest a1 = Ok a'"
    by (auto split: result.splits)
  from Cons.IH[OF r] emitEdge_adds[OF a1, of f] show ?case by simp
qed

lemma validOrder_mset: "validOrder poly o1 \<Longrightarrow> validOrder poly o2 \<Longrightarrow> mset o1 = mset o2"
  unfolding validOrder_def by (metis set_eq_iff_mset_eq_distinct)

lemma looseFace_adjacency:
  "BuildFaceAdjacency looseFace looseFaceOrder = Ok looseFaceAdjacency"
  by (simp add: adjacency_eval looseFace_def looseFaceOrder_def looseFaceAdjacency_def)

lemma looseFace_validOrder: "validOrder looseFace looseFaceOrder"
  by (auto simp: validOrder_def adjacency_eval looseFace_def looseFaceOrder_def)

lemma cube_validOrder1: "validOrder unitCube cubeOrder1"
  by (auto simp: validOrder_def adjacency_eval unitCube_def cubeOrder1_def)

lemma cube_validOrder2: "validOrder unitCube cubeOrder2"
  by (auto simp: validOrder_def adjacency_eval unitCube_def cubeOrder2_def)

text \<open>
  C6. The adjacency graph is symmetric: if the neighbour list of face \<open>A\<close> has an entry
  that names face \<open>B\<close> across the edge key \<open>E\<close>, the neighbour list of \<open>B\<close> has an entry
  that names \<open>A\<close> across the same key. This holds for every iteration order of the edge
  map.
\<close>

theorem adjacency_symmetric:
  assumes "BuildFaceAdjacency poly order = Ok adj"
    and "nbr \<in> set (lookupList (Neighbors adj) A)"
    and "FaceIndex nbr = B" and "SharedEdge nbr = E"
  shows "\<exists>nbr' \<in> set (lookupList (Neighbors adj) B). FaceIndex nbr' = A \<and> SharedEdge nbr' = E"
proof -
  from assms(1) have "emitAll (Faces poly) (populate (Faces poly)) order Map.empty = Ok (Neighbors adj)"
    by (auto simp: BuildFaceAdjacency_def split: result.splits)
  from symAdj_emitAll[OF this] assms(2-) show ?thesis
    unfolding symAdj_def by blast
qed

theorem adjacency_symmetric_witness:
  "BuildFaceAdjacency twoTriangles [(0, 1), (1, 2), (0, 2), (1, 3), (2, 3)] =
     Ok \<lparr>Neighbors = [0 \<mapsto> [\<lparr>FaceIndex = 1, SharedEdge = (1, 2), ThisFaceEdge = (1, 2)\<rparr>],
                       1 \<mapsto> [\<lparr>FaceIndex = 0, SharedEdge = (1, 2), ThisFaceEdge = (2, 0)\<rparr>]]\<rparr> \<and>
   (\<exists>nbr' \<in> set (lookupList
                    [0 \<mapsto> [\<lparr>FaceIndex = 1, SharedEdge = (1, 2), ThisFaceEdge = (1, 2)\<rparr>],
                     1 \<mapsto> [\<lparr>FaceIndex = 0, SharedEdge = (1, 2), ThisFaceEdge = (2, 0)\<rparr>]] 1).
       FaceIndex nbr' = 0 \<and> SharedEdge nbr' = (1, 2))"
proof -
  have e: "BuildFaceAdjacency twoTriangles [(0, 1), (1, 2), (0, 2), (1, 3), (2, 3)] =
     Ok \<lparr>Neighbors = [0 \<mapsto> [\<lparr>FaceIndex = 1, SharedEdge = (1, 2), ThisFaceEdge = (1, 2)\<rparr>],
                       1 \<mapsto> [\<lparr>FaceIndex = 0, SharedEdge = (1, 2), ThisFaceEdge = (2, 0)\<rparr>]]\<rparr>"
    by (simp add: adjacency_eval twoTriangles_def)
  from adjacency_symmetric[OF e,
      of "\<lparr>FaceIndex = 1, SharedEdge = (1, 2), ThisFaceEdge = (1, 2)\<rparr>" 0 1 "(1, 2)"]
  show ?thesis using e by (simp add: lookupList_def)
qed

text \<open>
  C4, as the code has it. The builder returns an adjacency and nothing else, for every
  mesh and every iteration order: there is no error and no diagnostic. Every neighbour
  entry sits on an edge key that the edge map records exactly twice, and its two faces
  are the two recorded ones; so a key recorded once, or three times and more, has no
  entry anywhere. Every key recorded twice that the iteration visits has one entry in
  each direction.
\<close>

theorem entries_only_for_keys_recorded_twice:
  "\<exists>adj. BuildFaceAdjacency poly order = Ok adj \<and>
     (\<forall>A nbr. nbr \<in> set (lookupList (Neighbors adj) A) \<longrightarrow>
        length (lookupList (populate (Faces poly)) (SharedEdge nbr)) = 2 \<and>
        set (lookupList (populate (Faces poly)) (SharedEdge nbr)) = {A, FaceIndex nbr}) \<and>
     (\<forall>edge f0 f1. edge \<in> set order \<longrightarrow> lookupList (populate (Faces poly)) edge = [f0, f1] \<longrightarrow>
        (\<exists>nbr \<in> set (lookupList (Neighbors adj) f0). FaceIndex nbr = f1 \<and> SharedEdge nbr = edge) \<and>
        (\<exists>nbr \<in> set (lookupList (Neighbors adj) f1). FaceIndex nbr = f0 \<and> SharedEdge nbr = edge))"
proof -
  obtain a where a: "emitAll (Faces poly) (populate (Faces poly)) order Map.empty = Ok a"
    using emitAll_emInv_Ok[OF emInv_populate] by blast
  then have b: "BuildFaceAdjacency poly order = Ok \<lparr>Neighbors = a\<rparr>"
    by (simp add: BuildFaceAdjacency_def)
  have only: "length (lookupList (populate (Faces poly)) (SharedEdge nbr)) = 2 \<and>
        set (lookupList (populate (Faces poly)) (SharedEdge nbr)) = {A, FaceIndex nbr}"
    if "nbr \<in> set (lookupList a A)" for A nbr
    using twoUses_emitAll[OF a] that unfolding twoUses_def by fastforce
  have all: "(\<exists>nbr \<in> set (lookupList a f0). FaceIndex nbr = f1 \<and> SharedEdge nbr = edge) \<and>
        (\<exists>nbr \<in> set (lookupList a f1). FaceIndex nbr = f0 \<and> SharedEdge nbr = edge)"
    if "edge \<in> set order" "lookupList (populate (Faces poly)) edge = [f0, f1]" for edge f0 f1
  proof -
    from emitAll_emits[OF emInv_populate that(2) a that(1)] obtain e0 e1 where
      m: "\<lparr>FaceIndex = f1, SharedEdge = edge, ThisFaceEdge = e0\<rparr> \<in> set (lookupList a f0)"
      "\<lparr>FaceIndex = f0, SharedEdge = edge, ThisFaceEdge = e1\<rparr> \<in> set (lookupList a f1)"
      by blast
    show ?thesis
      using m by (intro conjI; force)
  qed
  show ?thesis using b only all by auto
qed

theorem entries_only_for_keys_recorded_twice_witness:
  "lookupList (populate (Faces twoTriangles)) (1, 2) = [0, 1] \<and>
   (\<exists>adj. BuildFaceAdjacency twoTriangles [(0, 1), (1, 2), (0, 2), (1, 3), (2, 3)] = Ok adj \<and>
      (\<exists>nbr \<in> set (lookupList (Neighbors adj) 0). FaceIndex nbr = 1 \<and> SharedEdge nbr = (1, 2)) \<and>
      (\<exists>nbr \<in> set (lookupList (Neighbors adj) 1). FaceIndex nbr = 0 \<and> SharedEdge nbr = (1, 2)))"
proof -
  have l: "lookupList (populate (Faces twoTriangles)) (1, 2) = [0, 1]"
    by (simp add: adjacency_eval twoTriangles_def)
  have m: "(1, 2) \<in> set [(0, 1), (1, 2), (0, 2), (1, 3), (2, 3 :: int)]" by simp
  from entries_only_for_keys_recorded_twice[of twoTriangles "[(0, 1), (1, 2), (0, 2), (1, 3), (2, 3)]"]
  show ?thesis using l m by blast
qed

text \<open>
  C4 as stated fails in its diagnostic: on the fan, whose edge between vertices 0 and 1
  is recorded for three faces, the builder returns the empty adjacency without error, as
  it would for three triangles that share nothing. "Used by two faces" is "recorded
  twice": the only face of \<open>doubledEdge\<close> becomes its own neighbour.
\<close>

theorem non_manifold_edge_is_silent:
  "length (lookupList (populate (Faces fan)) (0, 1)) = 3 \<and>
   BuildFaceAdjacency fan [(0, 1), (1, 2), (0, 2), (1, 3), (0, 3), (1, 4), (0, 4)] =
     Ok \<lparr>Neighbors = Map.empty\<rparr>"
  by (simp add: adjacency_eval fan_def)




section \<open>Properties of the spanning tree\<close>

lemma inRange_update [simp]: "inRange f (xs[i := x]) = inRange f xs"
  by (simp add: inRange_def)

lemma nth_update_int:
  "inRange f xs \<Longrightarrow> inRange g xs \<Longrightarrow> (xs[nat g := x]) ! nat f = (if f = g then x else xs ! nat f)"
  by (auto simp: inRange_def nat_eq_iff)

lemma visitedSet_update:
  "inRange g v \<Longrightarrow> visitedSet (v[nat g := True]) = insert g (visitedSet v)"
  unfolding visitedSet_def
  by (auto simp: nth_update_int)

lemma visitedSet_inRange: "f \<in> visitedSet v \<Longrightarrow> inRange f v"
  by (simp add: visitedSet_def)

subsection \<open>Paths of parent links\<close>

lemma parentPath_nonneg: "parentPath p f ps r \<Longrightarrow> 0 \<le> r \<Longrightarrow> 0 \<le> f"
  by (cases ps) (auto simp: inRange_def)

lemma parentPath_append:
  "parentPath p a xs b \<Longrightarrow> parentPath p b ys c \<Longrightarrow> parentPath p a (xs @ ys) c"
  by (induction xs arbitrary: a) auto

lemma parentPath_root_end:
  assumes "parentPath p r ps r" "inRange r p" "p ! nat r = - 1"
  shows "ps = []"
proof (cases ps)
  case Nil
  then show ?thesis .
next
  case (Cons x xs)
  with assms have x: "x = - 1" and rest: "parentPath p (- 1) xs r" by auto
  from parentPath_nonneg[OF rest] assms(2) show ?thesis by (simp add: inRange_def)
qed

lemma parentPath_unique:
  assumes "inRange r p" "p ! nat r = - 1"
  shows "parentPath p f ps r \<Longrightarrow> parentPath p f qs r \<Longrightarrow> ps = qs"
proof (induction ps arbitrary: f qs)
  case Nil
  then show ?case using parentPath_root_end[OF _ assms] by auto
next
  case (Cons x xs)
  show ?case
  proof (cases qs)
    case Nil
    with Cons.prems have "parentPath p r (x # xs) r" by simp
    from parentPath_root_end[OF this assms] show ?thesis by simp
  next
    case (Cons y ys)
    with Cons.prems Cons.IH[of x ys] show ?thesis by auto
  qed
qed

lemma parentPath_acyclic:
  assumes "inRange r p" "p ! nat r = - 1"
  shows "parentPath p f rs r \<Longrightarrow> parentPath p f ps f \<Longrightarrow> ps = []"
proof (induction rs arbitrary: f ps)
  case Nil
  then show ?case using parentPath_root_end[OF _ assms] by auto
next
  case (Cons x xs)
  show ?case
  proof (cases ps)
    case Nil
    then show ?thesis .
  next
    case (Cons y ys)
    with Cons.prems have y: "y = x" and r: "inRange f p" "p ! nat f = x"
      and toF: "parentPath p x ys f" and toR: "parentPath p x xs r"
      by auto
    have "parentPath p f [x] x" using r by simp
    from parentPath_append[OF toF this] have "parentPath p x (ys @ [x]) x" .
    from Cons.IH[OF toR this] show ?thesis by simp
  qed
qed

lemma parentPath_update:
  assumes "inRange g p" "0 \<le> r" "\<And>n. inRange n p \<Longrightarrow> 0 \<le> p ! nat n \<Longrightarrow> n \<noteq> g"
  shows "parentPath p f ps r \<Longrightarrow> parentPath (p[nat g := c]) f ps r"
proof (induction ps arbitrary: f)
  case Nil
  then show ?case by simp
next
  case (Cons x xs)
  then have f: "inRange f p" "p ! nat f = x" and rest: "parentPath p x xs r" by auto
  from parentPath_nonneg[OF rest assms(2)] f have "f \<noteq> g" using assms(3) by auto
  with f assms(1) Cons.IH[OF rest] show ?case by (simp add: nth_update_int)
qed

subsection \<open>The search keeps its invariant\<close>

lemma treeInv_visit:
  assumes inv: "treeInv adj rootFace v p"
    and c: "c \<in> visitedSet v" and g: "inRange g v" "g \<notin> visitedSet v"
    and e: "(c, g) \<in> faceEdge adj"
  shows "treeInv adj rootFace (v[nat g := True]) (p[nat g := c])"
proof -
  let ?v = "v[nat g := True]" and ?p = "p[nat g := c]"
  from inv have len: "length p = length v" and root: "rootFace \<in> visitedSet v" "p ! nat rootFace = - 1"
    and unv: "\<And>f. inRange f v \<Longrightarrow> f \<notin> visitedSet v \<Longrightarrow> p ! nat f = - 1"
    and par: "\<And>f. f \<in> visitedSet v \<Longrightarrow> f \<noteq> rootFace \<Longrightarrow>
                p ! nat f \<in> visitedSet v \<and> (p ! nat f, f) \<in> faceEdge adj"
    and path: "\<And>f. f \<in> visitedSet v \<Longrightarrow> \<exists>ps. parentPath p f ps rootFace"
    and reach: "\<And>f. f \<in> visitedSet v \<Longrightarrow> (rootFace, f) \<in> (faceEdge adj)\<^sup>*"
    unfolding treeInv_def by blast+
  have V: "visitedSet ?v = insert g (visitedSet v)" by (rule visitedSet_update[OF g(1)])
  have gp: "inRange g p" using g(1) len by (simp add: inRange_def)
  have rng: "\<And>f. f \<in> visitedSet v \<Longrightarrow> inRange f p"
    using visitedSet_inRange len by (auto simp: inRange_def)
  have rootg: "rootFace \<noteq> g" using root g by auto
  have r0: "0 \<le> rootFace" using root by (auto simp: visitedSet_def inRange_def)
  have old: "?p ! nat f = p ! nat f" if "f \<in> visitedSet v" for f
    using that g(2) rng[OF that] gp by (auto simp: nth_update_int)
  have new: "?p ! nat g = c" using gp by (simp add: nth_update_int)
  have fresh: "n \<noteq> g" if "inRange n p" "0 \<le> p ! nat n" for n
  proof
    assume "n = g"
    with unv[OF g] that show False by simp
  qed
  have keep: "parentPath ?p f ps rootFace" if "parentPath p f ps rootFace" for f ps
    using parentPath_update[OF gp r0 fresh that] .
  show ?thesis
    unfolding treeInv_def V
  proof (intro conjI allI ballI impI)
    show "length ?p = length ?v" using len by simp
    show "rootFace \<in> insert g (visitedSet v)" using root by simp
    show "?p ! nat rootFace = - 1" using old[OF root(1)] root(2) by simp
  next
    fix f assume "inRange f ?v" "f \<notin> insert g (visitedSet v)"
    then have f: "inRange f v" "f \<notin> visitedSet v" "f \<noteq> g" by auto
    with gp len have "?p ! nat f = p ! nat f" by (auto simp: nth_update_int inRange_def)
    with unv[OF f(1,2)] show "?p ! nat f = - 1" by simp
  next
    fix f assume f: "f \<in> insert g (visitedSet v)" "f \<noteq> rootFace"
    show "?p ! nat f \<in> insert g (visitedSet v)"
      using f c new old par by (cases "f = g") auto
    show "(?p ! nat f, f) \<in> faceEdge adj"
      using f e new old par by (cases "f = g") auto
  next
    fix f assume f: "f \<in> insert g (visitedSet v)"
    show "\<exists>ps. parentPath ?p f ps rootFace"
    proof (cases "f = g")
      case True
      from path[OF c] obtain ps where "parentPath p c ps rootFace" by blast
      from keep[OF this] new gp have "parentPath ?p g (c # ps) rootFace" by simp
      with True show ?thesis by blast
    next
      case False
      with f path keep show ?thesis by blast
    qed
  next
    fix f assume f: "f \<in> insert g (visitedSet v)"
    show "(rootFace, f) \<in> (faceEdge adj)\<^sup>*"
    proof (cases "f = g")
      case True
      from reach[OF c] e have "(rootFace, g) \<in> (faceEdge adj)\<^sup>*" by (rule rtrancl_into_rtrancl)
      with True show ?thesis by simp
    next
      case False
      with f reach show ?thesis by blast
    qed
  qed
qed

lemma closedExcept_visit:
  assumes "closedExcept adj v S" "inRange g v"
  shows "closedExcept adj (v[nat g := True]) (insert g S)"
  using assms unfolding closedExcept_def visitedSet_update[OF assms(2)] by blast

text \<open>
  The inner loop.
\<close>

lemma visitNeighbors_inv:
  assumes "visitNeighbors c nbrs (v, p, q) = Ok (v', p', q')"
    and "treeInv adj rootFace v p" and "c \<in> visitedSet v" and "set q \<subseteq> visitedSet v"
    and "closedExcept adj v (insert c (set q))"
    and "\<forall>nbr \<in> set nbrs. (c, FaceIndex nbr) \<in> faceEdge adj"
  shows "treeInv adj rootFace v' p' \<and> c \<in> visitedSet v' \<and> set q' \<subseteq> visitedSet v' \<and>
         closedExcept adj v' (insert c (set q')) \<and>
         (\<forall>nbr \<in> set nbrs. FaceIndex nbr \<in> visitedSet v') \<and> visitedSet v \<subseteq> visitedSet v'"
  using assms
proof (induction nbrs arbitrary: v p q)
  case Nil
  then show ?case by simp
next
  case (Cons nbr rest)
  let ?g = "FaceIndex nbr"
  from Cons.prems(1) have r: "inRange ?g v" by (auto split: if_splits)
  from Cons.prems(6) have e: "(c, ?g) \<in> faceEdge adj"
    and er: "\<forall>nbr \<in> set rest. (c, FaceIndex nbr) \<in> faceEdge adj" by auto
  show ?case
  proof (cases "v ! nat ?g")
    case True
    with r have gv: "?g \<in> visitedSet v" by (simp add: visitedSet_def)
    from True r Cons.prems(1) have step: "visitNeighbors c rest (v, p, q) = Ok (v', p', q')" by simp
    from Cons.IH[OF step Cons.prems(2-5) er] gv show ?thesis by auto
  next
    case False
    with r have gv: "?g \<notin> visitedSet v" by (simp add: visitedSet_def)
    from False r Cons.prems(1) have step:
      "visitNeighbors c rest (v[nat ?g := True], p[nat ?g := c], q @ [?g]) = Ok (v', p', q')"
      by (auto split: if_splits)
    have V: "visitedSet (v[nat ?g := True]) = insert ?g (visitedSet v)"
      by (rule visitedSet_update[OF r])
    have t: "treeInv adj rootFace (v[nat ?g := True]) (p[nat ?g := c])"
      by (rule treeInv_visit[OF Cons.prems(2,3) r gv e])
    have cl: "closedExcept adj (v[nat ?g := True]) (insert c (set (q @ [?g])))"
      using closedExcept_visit[OF Cons.prems(5) r] by (simp add: insert_commute)
    have "treeInv adj rootFace v' p' \<and> c \<in> visitedSet v' \<and> set q' \<subseteq> visitedSet v' \<and>
         closedExcept adj v' (insert c (set q')) \<and>
         (\<forall>nbr \<in> set rest. FaceIndex nbr \<in> visitedSet v') \<and>
         visitedSet (v[nat ?g := True]) \<subseteq> visitedSet v'"
      using Cons.prems(3,4) by (intro Cons.IH[OF step t _ _ cl er]) (auto simp: V)
    then show ?thesis unfolding V by auto
  qed
qed

lemma faceEdge_iff:
  "(f, g) \<in> faceEdge adj \<longleftrightarrow> (\<exists>nbr \<in> set (lookupList (Neighbors adj) f). FaceIndex nbr = g)"
  by (simp add: faceEdge_def)

text \<open>
  The outer loop: the invariant holds of the final state, with an empty queue.
\<close>

lemma bfsLoop_inv:
  assumes "bfsLoop adj v p q = Ok parent"
    and "treeInv adj rootFace v p" and "set q \<subseteq> visitedSet v" and "closedExcept adj v (set q)"
  shows "\<exists>v'. treeInv adj rootFace v' parent \<and> closedExcept adj v' {}"
  using assms
proof (induction adj v p q rule: bfsLoop.induct)
  case (1 adj visited parent')
  then show ?case by auto
next
  case (2 adj visited p c queue)
  from "2.prems"(1) obtain v1 p1 q1 where
    inner: "visitNeighbors c (lookupList (Neighbors adj) c) (visited, p, queue) = Ok (v1, p1, q1)"
    and rest: "bfsLoop adj v1 p1 q1 = Ok parent"
    by (auto split: result.splits)
  from "2.prems"(3) have c: "c \<in> visitedSet visited" and q: "set queue \<subseteq> visitedSet visited" by auto
  from "2.prems"(4) have cl: "closedExcept adj visited (insert c (set queue))" by simp
  have edges: "\<forall>nbr \<in> set (lookupList (Neighbors adj) c). (c, FaceIndex nbr) \<in> faceEdge adj"
    by (auto simp: faceEdge_iff)
  from visitNeighbors_inv[OF inner "2.prems"(2) c q cl edges]
  have t1: "treeInv adj rootFace v1 p1" and q1: "set q1 \<subseteq> visitedSet v1"
    and cl1: "closedExcept adj v1 (insert c (set q1))"
    and seen: "\<forall>nbr \<in> set (lookupList (Neighbors adj) c). FaceIndex nbr \<in> visitedSet v1"
    by blast+
  have "closedExcept adj v1 (set q1)"
    unfolding closedExcept_def
  proof (intro ballI impI allI)
    fix f g assume f: "f \<in> visitedSet v1" "f \<notin> set q1" "(f, g) \<in> faceEdge adj"
    show "g \<in> visitedSet v1"
    proof (cases "f = c")
      case True
      with f(3) seen show ?thesis by (auto simp: faceEdge_iff)
    next
      case False
      with f cl1 show ?thesis unfolding closedExcept_def by blast
    qed
  qed
  from "2.IH"[OF inner refl refl rest t1 q1 this] show ?case .
qed

lemma visitNeighbors_length:
  "visitNeighbors c nbrs (v, p, q) = Ok (v', p', q') \<Longrightarrow>
   length v' = length v \<and> length p' = length p"
proof (induction nbrs arbitrary: v p q)
  case Nil
  then show ?case by simp
next
  case (Cons nbr rest)
  show ?case
  proof (cases "v ! nat (FaceIndex nbr)")
    case True
    with Cons show ?thesis by (auto split: if_splits)
  next
    case False
    with Cons.prems have "visitNeighbors c rest
        (v[nat (FaceIndex nbr) := True], p[nat (FaceIndex nbr) := c], q @ [FaceIndex nbr]) =
        Ok (v', p', q')"
      by (auto split: if_splits)
    from Cons.IH[OF this] show ?thesis by simp
  qed
qed

lemma bfsLoop_length:
  "bfsLoop adj v p q = Ok parent \<Longrightarrow> length parent = length p"
proof (induction adj v p q rule: bfsLoop.induct)
  case (1 adj visited parent')
  then show ?case by simp
next
  case (2 adj visited p c queue)
  from "2.prems" obtain v1 p1 q1 where
    inner: "visitNeighbors c (lookupList (Neighbors adj) c) (visited, p, queue) = Ok (v1, p1, q1)"
    and rest: "bfsLoop adj v1 p1 q1 = Ok parent"
    by (auto split: result.splits)
  from "2.IH"[OF inner refl refl rest] visitNeighbors_length[OF inner] show ?case by simp
qed

lemma treeInv_init:
  assumes "inRange rootFace (replicate n False)"
  shows "treeInv adj rootFace ((replicate n False)[nat rootFace := True]) (replicate n (- 1))"
proof -
  have V: "visitedSet ((replicate n False)[nat rootFace := True]) = {rootFace}"
    unfolding visitedSet_update[OF assms] by (auto simp: visitedSet_def inRange_def)
  from assms have r: "nat rootFace < n" "0 \<le> rootFace" by (auto simp: inRange_def)
  have m: "replicate n (- 1 :: int) ! nat f = - 1" if "inRange f (replicate n False)" for f
    using that by (auto simp: inRange_def)
  have "parentPath (replicate n (- 1)) rootFace [] rootFace" by simp
  then have "\<exists>ps. parentPath (replicate n (- 1)) rootFace ps rootFace" by blast
  then show ?thesis
    unfolding treeInv_def V using r m by auto
qed

lemma closed_reach:
  assumes "closedExcept adj v {}" "rootFace \<in> visitedSet v" "(rootFace, f) \<in> (faceEdge adj)\<^sup>*"
  shows "f \<in> visitedSet v"
  using assms(3)
proof (induction rule: rtrancl_induct)
  case base
  then show ?case by (rule assms(2))
next
  case (step y z)
  with assms(1) show ?case unfolding closedExcept_def by blast
qed

lemma BuildFaceSpanningTree_inv:
  assumes "BuildFaceSpanningTree adj rootFace nFaces = Ok parent"
  shows "\<exists>v. treeInv adj rootFace v parent \<and> closedExcept adj v {} \<and> length parent = nat nFaces"
proof -
  let ?n = "nat nFaces"
  let ?v0 = "(replicate ?n False)[nat rootFace := True]"
  let ?p0 = "replicate ?n (- 1 :: int)"
  from assms have r: "inRange rootFace (replicate ?n False)"
    and loop: "bfsLoop adj ?v0 ?p0 [rootFace] = Ok parent"
    by (auto simp: BuildFaceSpanningTree_def Let_def split: if_splits)
  have t0: "treeInv adj rootFace ?v0 ?p0" by (rule treeInv_init[OF r])
  have V0: "visitedSet ?v0 = insert rootFace (visitedSet (replicate ?n False))"
    by (rule visitedSet_update[OF r])
  have q0: "set [rootFace] \<subseteq> visitedSet ?v0" unfolding V0 by simp
  have c0: "closedExcept adj ?v0 (set [rootFace])"
    unfolding closedExcept_def V0 by (auto simp: visitedSet_def inRange_def)
  from bfsLoop_inv[OF loop t0 q0 c0] bfsLoop_length[OF loop] show ?thesis by simp
qed

text \<open>
  Which faces end without a parent depends on the face graph only.
\<close>

lemma no_parent_iff:
  assumes "BuildFaceSpanningTree adj rootFace nFaces = Ok parent" "inRange f parent"
  shows "parent ! nat f = - 1 \<longleftrightarrow> f = rootFace \<or> (rootFace, f) \<notin> (faceEdge adj)\<^sup>*"
proof -
  from BuildFaceSpanningTree_inv[OF assms(1)] obtain v where
    t: "treeInv adj rootFace v parent" and cl: "closedExcept adj v {}" by blast
  from t assms(2) have fv: "inRange f v" by (simp add: treeInv_def inRange_def)
  from t have root: "rootFace \<in> visitedSet v" by (simp add: treeInv_def)
  show ?thesis
  proof (cases "f \<in> visitedSet v")
    case False
    with t fv have "parent ! nat f = - 1" unfolding treeInv_def by blast
    moreover from False closed_reach[OF cl root] have "(rootFace, f) \<notin> (faceEdge adj)\<^sup>*" by blast
    ultimately show ?thesis by simp
  next
    case True
    with t have reach: "(rootFace, f) \<in> (faceEdge adj)\<^sup>*" unfolding treeInv_def by blast
    show ?thesis
    proof (cases "f = rootFace")
      case True
      with t show ?thesis by (simp add: treeInv_def)
    next
      case False
      with t True have "parent ! nat f \<in> visitedSet v" unfolding treeInv_def by blast
      then have "parent ! nat f \<noteq> - 1" by (auto simp: visitedSet_def inRange_def)
      with False reach show ?thesis by simp
    qed
  qed
qed

subsection \<open>The search returns\<close>

lemma visitNeighbors_Ok:
  assumes "\<forall>nbr \<in> set nbrs. inRange (FaceIndex nbr) v" "length p = length v"
  shows "\<exists>v' p' q'. visitNeighbors c nbrs (v, p, q) = Ok (v', p', q')"
  using assms
proof (induction nbrs arbitrary: v p q)
  case Nil
  then show ?case by simp
next
  case (Cons nbr rest)
  let ?g = "FaceIndex nbr"
  from Cons.prems have r: "inRange ?g v" "inRange ?g p" by (auto simp: inRange_def)
  show ?case
  proof (cases "v ! nat ?g")
    case True
    with r Cons.IH[of v p q] Cons.prems show ?thesis by simp
  next
    case False
    have "\<exists>v' p' q'. visitNeighbors c rest (v[nat ?g := True], p[nat ?g := c], q @ [?g]) =
        Ok (v', p', q')"
      using Cons.prems by (intro Cons.IH) simp_all
    with False r show ?thesis by simp
  qed
qed

lemma bfsLoop_Ok:
  assumes "wellFormed adj (length v)" "length p = length v"
  shows "\<exists>parent. bfsLoop adj v p q = Ok parent"
  using assms
proof (induction adj v p q rule: bfsLoop.induct)
  case (1 adj visited parent)
  then show ?case by simp
next
  case (2 adj visited p c queue)
  from "2.prems"(1) have "\<forall>nbr \<in> set (lookupList (Neighbors adj) c). inRange (FaceIndex nbr) visited"
    unfolding wellFormed_def inRange_def by blast
  from visitNeighbors_Ok[OF this "2.prems"(2)] obtain v1 p1 q1 where
    inner: "visitNeighbors c (lookupList (Neighbors adj) c) (visited, p, queue) = Ok (v1, p1, q1)"
    by blast
  from visitNeighbors_length[OF inner] "2.prems" have
    "wellFormed adj (length v1)" "length p1 = length v1" by simp_all
  from "2.IH"[OF inner refl refl this] inner show ?case by simp
qed

lemma BuildFaceSpanningTree_Ok:
  assumes "wellFormed adj n" "0 \<le> rootFace" "rootFace < int n"
  shows "\<exists>parent. BuildFaceSpanningTree adj rootFace (int n) = Ok parent \<and> length parent = n"
proof -
  from assms(2,3) have r: "inRange rootFace (replicate n False)" by (simp add: inRange_def)
  have "\<exists>parent. bfsLoop adj ((replicate n False)[nat rootFace := True]) (replicate n (- 1)) [rootFace]
      = Ok parent"
    using assms(1) by (intro bfsLoop_Ok) simp_all
  then obtain parent where
    l: "bfsLoop adj ((replicate n False)[nat rootFace := True]) (replicate n (- 1)) [rootFace] = Ok parent"
    by blast
  from bfsLoop_length[OF l] l r show ?thesis
    by (simp add: BuildFaceSpanningTree_def)
qed

lemma BuildFaceSpanningTree_Panic:
  assumes "\<not> (0 \<le> rootFace \<and> rootFace < nFaces)" "0 \<le> nFaces"
  shows "BuildFaceSpanningTree adj rootFace nFaces = Panic IndexOutOfRange"
  using assms by (auto simp: BuildFaceSpanningTree_def inRange_def)

lemma looseFace_tree: "BuildFaceSpanningTree looseFaceAdjacency 0 3 = Ok [- 1, 0, - 1]"
  by (simp add: BuildFaceSpanningTree_def looseFaceAdjacency_def lookupList_def inRange_def
      eval_nat_numeral)

lemma looseFace_edges: "faceEdge looseFaceAdjacency = {(0, 1), (1, 0)}"
  by (auto simp: faceEdge_def looseFaceAdjacency_def lookupList_def split: if_splits)

lemma looseFace_unreachable: "(0, 2) \<notin> (faceEdge looseFaceAdjacency)\<^sup>*"
proof -
  have "faceEdge looseFaceAdjacency `` {0, 1} \<subseteq> {0, 1}"
    unfolding looseFace_edges by auto
  then have "(faceEdge looseFaceAdjacency)\<^sup>* `` {0, 1} = {0, 1}"
    by (rule Image_closed_trancl)
  moreover have "(2 :: int) \<notin> {0, 1}" by simp
  ultimately have "2 \<notin> (faceEdge looseFaceAdjacency)\<^sup>* `` {0, 1}" by simp
  then show ?thesis by blast
qed

text \<open>
  C3. Whenever \<^verbatim>\<open>BuildFaceSpanningTree\<close> returns a parent array: the array has one entry
  per face and the root's entry is \<open>- 1\<close>; every face that is not reachable from the root
  in the face graph keeps \<open>- 1\<close>; every reachable face has exactly one path of parent links
  to the root, and for a reachable face other than the root the parent is a reachable
  face that lists it as a neighbour; no face is on a cycle of parent links.
\<close>

theorem spanning_tree_is_tree:
  assumes "BuildFaceSpanningTree adj rootFace nFaces = Ok parent"
  shows "length parent = nat nFaces \<and> inRange rootFace parent \<and> parent ! nat rootFace = - 1 \<and>
     (\<forall>f. inRange f parent \<longrightarrow> (rootFace, f) \<notin> (faceEdge adj)\<^sup>* \<longrightarrow> parent ! nat f = - 1) \<and>
     (\<forall>f. (rootFace, f) \<in> (faceEdge adj)\<^sup>* \<longrightarrow>
         inRange f parent \<and> (\<exists>!ps. parentPath parent f ps rootFace) \<and>
         (f \<noteq> rootFace \<longrightarrow> parent ! nat f \<noteq> - 1 \<and> (parent ! nat f, f) \<in> faceEdge adj \<and>
            (rootFace, parent ! nat f) \<in> (faceEdge adj)\<^sup>*)) \<and>
     (\<forall>f ps. parentPath parent f ps f \<longrightarrow> ps = [])"
proof -
  from BuildFaceSpanningTree_inv[OF assms] obtain v where
    t: "treeInv adj rootFace v parent" and cl: "closedExcept adj v {}"
    and len: "length parent = nat nFaces" by blast
  from t have lv: "length parent = length v" and root: "rootFace \<in> visitedSet v" "parent ! nat rootFace = - 1"
    and unv: "\<And>f. inRange f v \<Longrightarrow> f \<notin> visitedSet v \<Longrightarrow> parent ! nat f = - 1"
    and par: "\<And>f. f \<in> visitedSet v \<Longrightarrow> f \<noteq> rootFace \<Longrightarrow>
                parent ! nat f \<in> visitedSet v \<and> (parent ! nat f, f) \<in> faceEdge adj"
    and path: "\<And>f. f \<in> visitedSet v \<Longrightarrow> \<exists>ps. parentPath parent f ps rootFace"
    and reach: "\<And>f. f \<in> visitedSet v \<Longrightarrow> (rootFace, f) \<in> (faceEdge adj)\<^sup>*"
    unfolding treeInv_def by blast+
  have rng: "inRange f parent" if "f \<in> visitedSet v" for f
    using visitedSet_inRange[OF that] lv by (simp add: inRange_def)
  have rr: "inRange rootFace parent" by (rule rng[OF root(1)])
  have vis: "f \<in> visitedSet v" if "(rootFace, f) \<in> (faceEdge adj)\<^sup>*" for f
    by (rule closed_reach[OF cl root(1) that])
  have a: "parent ! nat f = - 1" if "inRange f parent" "(rootFace, f) \<notin> (faceEdge adj)\<^sup>*" for f
  proof -
    from that(2) reach have "f \<notin> visitedSet v" by blast
    moreover from that(1) lv have "inRange f v" by (simp add: inRange_def)
    ultimately show ?thesis by (rule unv[rotated])
  qed
  have b: "inRange f parent \<and> (\<exists>!ps. parentPath parent f ps rootFace) \<and>
         (f \<noteq> rootFace \<longrightarrow> parent ! nat f \<noteq> - 1 \<and> (parent ! nat f, f) \<in> faceEdge adj \<and>
            (rootFace, parent ! nat f) \<in> (faceEdge adj)\<^sup>*)"
    if "(rootFace, f) \<in> (faceEdge adj)\<^sup>*" for f
  proof (intro conjI impI)
    from vis[OF that] have fv: "f \<in> visitedSet v" .
    show "inRange f parent" by (rule rng[OF fv])
    from path[OF fv] obtain ps where ps: "parentPath parent f ps rootFace" by blast
    show "\<exists>!ps. parentPath parent f ps rootFace"
      using ps parentPath_unique[OF rr root(2)] by blast
    assume ne: "f \<noteq> rootFace"
    from par[OF fv ne] have pv: "parent ! nat f \<in> visitedSet v"
      and pe: "(parent ! nat f, f) \<in> faceEdge adj" by blast+
    from pv show "parent ! nat f \<noteq> - 1" by (auto simp: visitedSet_def inRange_def)
    from pe show "(parent ! nat f, f) \<in> faceEdge adj" .
    from reach[OF pv] show "(rootFace, parent ! nat f) \<in> (faceEdge adj)\<^sup>*" .
  qed
  have c: "ps = []" if "parentPath parent f ps f" for f ps
  proof (cases ps)
    case Nil
    then show ?thesis .
  next
    case (Cons x xs)
    with that have f: "inRange f parent" "parent ! nat f = x" and rest: "parentPath parent x xs f"
      by auto
    from f(1) have "0 \<le> f" by (simp add: inRange_def)
    from parentPath_nonneg[OF rest this] f(2) have "parent ! nat f \<noteq> - 1" by simp
    with unv[of f] f(1) lv have "f \<in> visitedSet v" by (auto simp: inRange_def)
    from path[OF this] obtain rs where "parentPath parent f rs rootFace" by blast
    from parentPath_acyclic[OF rr root(2) this that] show ?thesis .
  qed
  show ?thesis using len rr root(2) a b c by blast
qed

theorem spanning_tree_is_tree_witness:
  "BuildFaceAdjacency looseFace looseFaceOrder = Ok looseFaceAdjacency \<and>
   BuildFaceSpanningTree looseFaceAdjacency 0 3 = Ok [- 1, 0, - 1] \<and>
   (0, 1) \<in> (faceEdge looseFaceAdjacency)\<^sup>* \<and>
   (0, 2) \<notin> (faceEdge looseFaceAdjacency)\<^sup>* \<and>
   (\<exists>!ps. parentPath [- 1, 0, - 1] 1 ps 0) \<and> parentPath [- 1, 0, - 1] 1 [0] 0 \<and>
   [- 1, 0, - 1] ! nat 2 = (- 1 :: int)"
proof -
  have r: "(0, 1) \<in> (faceEdge looseFaceAdjacency)\<^sup>*"
    unfolding looseFace_edges by auto
  have p: "parentPath [- 1, 0, - 1] 1 [0] 0" by (simp add: inRange_def)
  from spanning_tree_is_tree[OF looseFace_tree] r looseFace_unreachable looseFace_tree p
    looseFace_adjacency
  show ?thesis by simp
qed

section \<open>Properties of the unfolding\<close>



lemma placeRootFace_frame:
  assumes "placeRootFace K poly faceIdx v = Ok (face2D, v')" "writesOnlyFace K poly"
  shows "sameOutside (Faces poly ! nat faceIdx) v v'"
  using assms unfolding placeRootFace_def writesOnlyFace_def Let_def
  by (auto split: if_splits)

text \<open>
  The inner and the outer loop either fail inside \<^verbatim>\<open>placeAdjacentFace\<close> or return; the
  result carries the parent array it was given.
\<close>

lemma placeNeighbors_outcome:
  assumes "length placed = length parent" "length face2Ds = length parent"
    and "\<forall>nbr \<in> set nbrs. inRange (FaceIndex nbr) parent"
  shows "case placeNeighbors K poly parent fIdx nbrs (placed, face2Ds, vertex2D, queue) of
           Ok (placed', face2Ds', vertex2D', queue') \<Rightarrow>
             length placed' = length parent \<and> length face2Ds' = length parent
         | Err e \<Rightarrow> adjacentErrs K poly e
         | Panic f \<Rightarrow> adjacentPanics K poly f"
  using assms
proof (induction nbrs arbitrary: placed face2Ds vertex2D queue)
  case Nil
  then show ?case by simp
next
  case (Cons nbr rest)
  let ?n = "FaceIndex nbr"
  from Cons.prems have r: "inRange ?n parent" "inRange ?n placed" "inRange ?n face2Ds"
    and rr: "\<forall>nbr \<in> set rest. inRange (FaceIndex nbr) parent"
    by (auto simp: inRange_def)
  show ?case
  proof (cases "parent ! nat ?n = fIdx \<and> \<not> placed ! nat ?n")
    case False
    then have "placeNeighbors K poly parent fIdx (nbr # rest) (placed, face2Ds, vertex2D, queue) =
        placeNeighbors K poly parent fIdx rest (placed, face2Ds, vertex2D, queue)"
      using r by (auto simp: Let_def)
    with Cons.IH[OF Cons.prems(1,2) rr] show ?thesis by simp
  next
    case True
    show ?thesis
    proof (cases "placeAdjacentFace K poly fIdx ?n vertex2D nbr")
      case (Ok x)
      obtain face2D v2 where x: "x = (face2D, v2)" by (cases x)
      have "placeNeighbors K poly parent fIdx (nbr # rest) (placed, face2Ds, vertex2D, queue) =
        placeNeighbors K poly parent fIdx rest
          (placed[nat ?n := True], face2Ds[nat ?n := face2D], v2, queue @ [?n])"
        using True r Ok x by (simp add: Let_def)
      moreover have "length (placed[nat ?n := True]) = length parent"
        "length (face2Ds[nat ?n := face2D]) = length parent"
        using Cons.prems by simp_all
      ultimately show ?thesis using Cons.IH[OF _ _ rr] by simp
    next
      case (Err e)
      then have "placeNeighbors K poly parent fIdx (nbr # rest) (placed, face2Ds, vertex2D, queue) =
        Err (AdjacentFailed ?n fIdx e)"
        using True r by (simp add: Let_def)
      moreover have "adjacentErrs K poly (AdjacentFailed ?n fIdx e)"
        unfolding adjacentErrs_def using Err by blast
      ultimately show ?thesis by simp
    next
      case (Panic f)
      then have "placeNeighbors K poly parent fIdx (nbr # rest) (placed, face2Ds, vertex2D, queue) =
        Panic f"
        using True r by (simp add: Let_def)
      moreover have "adjacentPanics K poly f"
        unfolding adjacentPanics_def using Panic by blast
      ultimately show ?thesis by simp
    qed
  qed
qed

lemma unfoldLoop_outcome:
  assumes "wellFormed adjacency (length parent)"
    and "length placed = length parent" "length face2Ds = length parent"
  shows "case unfoldLoop K poly adjacency parent placed face2Ds vertex2D queue of
           Ok res \<Rightarrow> SpanningTree res = parent \<and> length (Face2Ds res) = length parent
         | Err e \<Rightarrow> adjacentErrs K poly e
         | Panic f \<Rightarrow> adjacentPanics K poly f"
  using assms
proof (induction K poly adjacency parent placed face2Ds vertex2D queue rule: unfoldLoop.induct)
  case (1 K poly adjacency parent placed face2Ds vertex2D)
  then show ?case by simp
next
  case (2 K poly adjacency parent placed face2Ds vertex2D fIdx queue)
  let ?nbrs = "lookupList (Neighbors adjacency) fIdx"
  from "2.prems"(1) have rr: "\<forall>nbr \<in> set ?nbrs. inRange (FaceIndex nbr) parent"
    unfolding wellFormed_def inRange_def by blast
  note inner = placeNeighbors_outcome[OF "2.prems"(2,3) rr, of K poly fIdx vertex2D queue]
  show ?case
  proof (cases "placeNeighbors K poly parent fIdx ?nbrs (placed, face2Ds, vertex2D, queue)")
    case (Ok s)
    obtain p1 f1 v1 q1 where s: "s = (p1, f1, v1, q1)" by (cases s)
    from inner Ok s have l: "length p1 = length parent" "length f1 = length parent" by simp_all
    from "2.IH"[OF Ok[unfolded s] refl refl refl "2.prems"(1) l] Ok s show ?thesis by simp
  next
    case (Err e)
    with inner show ?thesis by simp
  next
    case (Panic f)
    with inner show ?thesis by simp
  qed
qed

text \<open>
  \<^verbatim>\<open>UnfoldMesh\<close> on a mesh with a face, for a root in range and for one out of range.
\<close>

lemma UnfoldMesh_in_range:
  assumes "0 \<le> rootFace" "rootFace < int (length (Faces poly))"
  shows "\<exists>adjacency parent.
     BuildFaceAdjacency poly order = Ok adjacency \<and>
     BuildFaceSpanningTree adjacency rootFace (int (length (Faces poly))) = Ok parent \<and>
     length parent = length (Faces poly) \<and>
     UnfoldMesh K poly rootFace order =
       (case placeRootFace K poly rootFace (replicate (length (Vertices_poly poly)) (Point2 0 0)) of
          Err e \<Rightarrow> Err (RootFailed e)
        | Panic p \<Rightarrow> Panic p
        | Ok (face2D, vertex2D') \<Rightarrow>
            unfoldLoop K poly adjacency parent
              ((replicate (length (Faces poly)) False)[nat rootFace := True])
              ((replicate (length (Faces poly)) \<lparr>Vertices_2D = []\<rparr>)[nat rootFace := face2D])
              vertex2D' [rootFace])"
proof -
  obtain adjacency where a: "BuildFaceAdjacency poly order = Ok adjacency"
    using BuildFaceAdjacency_Ok by blast
  from BuildFaceSpanningTree_Ok[OF adjacency_wellFormed[OF a] assms] obtain parent where
    p: "BuildFaceSpanningTree adjacency rootFace (int (length (Faces poly))) = Ok parent"
    "length parent = length (Faces poly)" by blast
  from assms have ne: "length (Faces poly) \<noteq> 0" by auto
  from assms have r: "inRange rootFace (replicate (length (Faces poly)) False)"
    by (simp add: inRange_def)
  show ?thesis
    using a p ne r by (simp add: UnfoldMesh_def Let_def)
qed

lemma UnfoldMesh_out_of_range:
  assumes "Faces poly \<noteq> []" "\<not> (0 \<le> rootFace \<and> rootFace < int (length (Faces poly)))"
  shows "UnfoldMesh K poly rootFace order = Panic IndexOutOfRange"
proof -
  obtain adjacency where a: "BuildFaceAdjacency poly order = Ok adjacency"
    using BuildFaceAdjacency_Ok by blast
  from BuildFaceSpanningTree_Panic[OF assms(2)] a assms(1) show ?thesis
    by (simp add: UnfoldMesh_def Let_def)
qed

lemma UnfoldMesh_Ok_cases:
  assumes "UnfoldMesh K poly rootFace order = Ok res"
  shows "\<exists>adjacency parent face2D vertex2D'.
     0 \<le> rootFace \<and> rootFace < int (length (Faces poly)) \<and>
     BuildFaceAdjacency poly order = Ok adjacency \<and>
     BuildFaceSpanningTree adjacency rootFace (int (length (Faces poly))) = Ok parent \<and>
     length parent = length (Faces poly) \<and>
     placeRootFace K poly rootFace (replicate (length (Vertices_poly poly)) (Point2 0 0)) =
       Ok (face2D, vertex2D') \<and>
     unfoldLoop K poly adjacency parent
       ((replicate (length (Faces poly)) False)[nat rootFace := True])
       ((replicate (length (Faces poly)) \<lparr>Vertices_2D = []\<rparr>)[nat rootFace := face2D])
       vertex2D' [rootFace] = Ok res"
proof -
  from assms have ne: "Faces poly \<noteq> []" by (auto simp: UnfoldMesh_def)
  have r: "0 \<le> rootFace \<and> rootFace < int (length (Faces poly))"
  proof (rule ccontr)
    assume "\<not> ?thesis"
    from UnfoldMesh_out_of_range[OF ne this] assms show False by simp
  qed
  then have r1: "0 \<le> rootFace" and r2: "rootFace < int (length (Faces poly))" by simp_all
  from UnfoldMesh_in_range[OF r1 r2, of order K] obtain adjacency parent where
    a: "BuildFaceAdjacency poly order = Ok adjacency"
    and p: "BuildFaceSpanningTree adjacency rootFace (int (length (Faces poly))) = Ok parent"
      "length parent = length (Faces poly)"
    and u: "UnfoldMesh K poly rootFace order =
       (case placeRootFace K poly rootFace (replicate (length (Vertices_poly poly)) (Point2 0 0)) of
          Err e \<Rightarrow> Err (RootFailed e)
        | Panic p \<Rightarrow> Panic p
        | Ok (face2D, vertex2D') \<Rightarrow>
            unfoldLoop K poly adjacency parent
              ((replicate (length (Faces poly)) False)[nat rootFace := True])
              ((replicate (length (Faces poly)) \<lparr>Vertices_2D = []\<rparr>)[nat rootFace := face2D])
              vertex2D' [rootFace])"
    by blast
  show ?thesis
  proof (cases "placeRootFace K poly rootFace (replicate (length (Vertices_poly poly)) (Point2 0 0))")
    case (Ok x)
    obtain face2D vertex2D' where x: "x = (face2D, vertex2D')" by (cases x)
    from u assms Ok x have "unfoldLoop K poly adjacency parent
       ((replicate (length (Faces poly)) False)[nat rootFace := True])
       ((replicate (length (Faces poly)) \<lparr>Vertices_2D = []\<rparr>)[nat rootFace := face2D])
       vertex2D' [rootFace] = Ok res"
      by (simp del: unfoldLoop.simps)
    with r a p Ok x show ?thesis by blast
  next
    case (Err e)
    with u assms show ?thesis by simp
  next
    case (Panic f)
    with u assms show ?thesis by simp
  qed
qed

lemma UnfoldMesh_tree:
  assumes "UnfoldMesh K poly rootFace order = Ok res"
  shows "\<exists>adjacency. BuildFaceAdjacency poly order = Ok adjacency \<and>
     BuildFaceSpanningTree adjacency rootFace (int (length (Faces poly))) = Ok (SpanningTree res) \<and>
     length (SpanningTree res) = length (Faces poly)"
proof -
  let ?n = "length (Faces poly)"
  from UnfoldMesh_Ok_cases[OF assms] obtain adjacency parent face2D vertex2D' where
    a: "BuildFaceAdjacency poly order = Ok adjacency"
    and p: "BuildFaceSpanningTree adjacency rootFace (int ?n) = Ok parent"
    and lp: "length parent = ?n"
    and loop: "unfoldLoop K poly adjacency parent ((replicate ?n False)[nat rootFace := True])
       ((replicate ?n \<lparr>Vertices_2D = []\<rparr>)[nat rootFace := face2D]) vertex2D' [rootFace] = Ok res"
    by blast
  have wf: "wellFormed adjacency (length parent)"
    using adjacency_wellFormed[OF a] lp by simp
  from unfoldLoop_outcome[OF wf, of "(replicate ?n False)[nat rootFace := True]"
      "(replicate ?n \<lparr>Vertices_2D = []\<rparr>)[nat rootFace := face2D]" K poly vertex2D' "[rootFace]"]
    loop lp
  have "SpanningTree res = parent" by simp
  with a p lp show ?thesis by blast
qed

lemma faceEdge_mset:
  assumes "\<forall>f. mset (lookupList (Neighbors a1) f) = mset (lookupList (Neighbors a2) f)"
  shows "faceEdge a1 = faceEdge a2"
proof -
  from assms have "set (lookupList (Neighbors a1) f) = set (lookupList (Neighbors a2) f)" for f
    by (metis mset_eq_setD)
  then show ?thesis by (simp add: faceEdge_def)
qed

text \<open>
  The loops keep the defaults of what they do not place.
\<close>

lemma untouchedZero_step:
  assumes "untouchedZero poly parent rootFace v" "sameOutside (Faces poly ! nat h) v v'"
    and "inRange h (Faces poly)" "h = rootFace \<or> parent ! nat h \<noteq> - 1"
  shows "untouchedZero poly parent rootFace v'"
  unfolding untouchedZero_def
proof (intro conjI allI impI)
  from assms(1,2) show "length v' = length (Vertices_poly poly)"
    by (simp add: untouchedZero_def sameOutside_def)
  fix i assume i: "inRange i v'" "untouched poly parent rootFace i"
  from assms(2) i(1) have iv: "inRange i v" by (simp add: sameOutside_def inRange_def)
  from i(2) assms(3,4) have "i \<notin> set (Vertices (Faces poly ! nat h))"
    unfolding untouched_def by blast
  with assms(2) iv have "v' ! nat i = v ! nat i" by (simp add: sameOutside_def)
  with assms(1) iv i(2) show "v' ! nat i = Point2 0 0" by (simp add: untouchedZero_def)
qed

lemma placeNeighbors_frame:
  assumes "placeNeighbors K poly parent fIdx nbrs (placed, face2Ds, vertex2D, queue) =
             Ok (placed', face2Ds', vertex2D', queue')"
    and "0 \<le> fIdx" and "length parent = length (Faces poly)"
    and "unplacedDefault parent rootFace face2Ds" and "\<forall>c \<in> set queue. 0 \<le> c"
    and "writesOnlyFace K poly \<longrightarrow> untouchedZero poly parent rootFace vertex2D"
  shows "unplacedDefault parent rootFace face2Ds' \<and> (\<forall>c \<in> set queue'. 0 \<le> c) \<and>
         (writesOnlyFace K poly \<longrightarrow> untouchedZero poly parent rootFace vertex2D')"
  using assms(1,4,5,6)
proof (induction nbrs arbitrary: placed face2Ds vertex2D queue)
  case Nil
  then show ?case by simp
next
  case (Cons nbr rest)
  let ?n = "FaceIndex nbr"
  show ?case
  proof (cases "parent ! nat ?n = fIdx \<and> \<not> placed ! nat ?n")
    case False
    with Cons.prems(1) have "placeNeighbors K poly parent fIdx rest (placed, face2Ds, vertex2D, queue) =
        Ok (placed', face2Ds', vertex2D', queue')"
      by (auto simp: Let_def split: if_splits)
    from Cons.IH[OF this Cons.prems(2-4)] show ?thesis .
  next
    case True
    with Cons.prems(1) obtain face2D v2 where r: "inRange ?n parent" "inRange ?n face2Ds"
      and place: "placeAdjacentFace K poly fIdx ?n vertex2D nbr = Ok (face2D, v2)"
      and step: "placeNeighbors K poly parent fIdx rest
          (placed[nat ?n := True], face2Ds[nat ?n := face2D], v2, queue @ [?n]) =
          Ok (placed', face2Ds', vertex2D', queue')"
      by (auto simp: Let_def split: if_splits result.splits)
    from True assms(2) have pn: "parent ! nat ?n \<noteq> - 1" by simp
    have d: "unplacedDefault parent rootFace (face2Ds[nat ?n := face2D])"
      unfolding unplacedDefault_def
    proof (intro allI impI)
      fix g assume g: "inRange g (face2Ds[nat ?n := face2D])" "g \<noteq> rootFace" "parent ! nat g = - 1"
      with pn have "g \<noteq> ?n" by auto
      with g(1) r(2) have "face2Ds[nat ?n := face2D] ! nat g = face2Ds ! nat g"
        by (simp add: nth_update_int)
      with Cons.prems(2) g show "face2Ds[nat ?n := face2D] ! nat g = \<lparr>Vertices_2D = []\<rparr>"
        by (simp add: unplacedDefault_def)
    qed
    from r(1) have q: "\<forall>c \<in> set (queue @ [?n]). 0 \<le> c"
      using Cons.prems(3) by (auto simp: inRange_def)
    have z: "writesOnlyFace K poly \<longrightarrow> untouchedZero poly parent rootFace v2"
    proof
      assume w: "writesOnlyFace K poly"
      with place have s: "sameOutside (Faces poly ! nat ?n) vertex2D v2"
        unfolding writesOnlyFace_def by blast
      from r(1) assms(3) have "inRange ?n (Faces poly)" by (simp add: inRange_def)
      from untouchedZero_step[OF _ s this] w Cons.prems(4) pn
      show "untouchedZero poly parent rootFace v2" by blast
    qed
    from Cons.IH[OF step d q z] show ?thesis .
  qed
qed

lemma unfoldLoop_frame:
  assumes "unfoldLoop K poly adjacency parent placed face2Ds vertex2D queue = Ok res"
    and "length parent = length (Faces poly)"
    and "unplacedDefault parent rootFace face2Ds" and "\<forall>c \<in> set queue. 0 \<le> c"
    and "writesOnlyFace K poly \<longrightarrow> untouchedZero poly parent rootFace vertex2D"
  shows "unplacedDefault parent rootFace (Face2Ds res) \<and>
         (writesOnlyFace K poly \<longrightarrow> untouchedZero poly parent rootFace (Vertex2D res))"
  using assms
proof (induction K poly adjacency parent placed face2Ds vertex2D queue rule: unfoldLoop.induct)
  case (1 K poly adjacency parent placed face2Ds vertex2D)
  then show ?case by auto
next
  case (2 K poly adjacency parent placed face2Ds vertex2D fIdx queue)
  from "2.prems"(1) obtain p1 f1 v1 q1 where
    inner: "placeNeighbors K poly parent fIdx (lookupList (Neighbors adjacency) fIdx)
             (placed, face2Ds, vertex2D, queue) = Ok (p1, f1, v1, q1)"
    and rest: "unfoldLoop K poly adjacency parent p1 f1 v1 q1 = Ok res"
    by (auto split: result.splits)
  from "2.prems"(4) have f: "0 \<le> fIdx" and q: "\<forall>c \<in> set queue. 0 \<le> c" by auto
  from placeNeighbors_frame[OF inner f "2.prems"(2,3) q "2.prems"(5)]
  have "unplacedDefault parent rootFace f1" "\<forall>c \<in> set q1. 0 \<le> c"
    "writesOnlyFace K poly \<longrightarrow> untouchedZero poly parent rootFace v1" by blast+
  from "2.IH"[OF inner refl refl refl rest "2.prems"(2) this] show ?case .
qed

text \<open>
  The placement code modelled from the specification meets the frame condition.
\<close>

lemma writeVertices_frame:
  "writeVertices vs pts v = Ok v' \<Longrightarrow>
   length v' = length v \<and> (\<forall>i. inRange i v \<longrightarrow> i \<notin> set vs \<longrightarrow> v' ! nat i = v ! nat i)"
proof (induction vs pts v rule: writeVertices.induct)
  case (1 x vs pt pts vertex2D)
  from "1.prems" have r: "inRange x vertex2D"
    and step: "writeVertices vs pts (vertex2D[nat x := pt]) = Ok v'"
    by (auto split: if_splits)
  from "1.IH"[OF _ step] r show ?case
    by (auto simp: nth_update_int)
qed simp_all

lemma specKernel_writesOnlyFace: "writesOnlyFace specKernel poly"
  unfolding writesOnlyFace_def sameOutside_def specKernel_def
  by (auto simp: placeRootRest_spec_def placeAdjacentFace_spec_def Let_def
      dest!: writeVertices_frame split: result.splits option.splits if_splits)

lemma looseFace_unfolded:
  "UnfoldMesh specKernel looseFace 0 looseFaceOrder = Ok looseFaceResult"
  by (simp add: unfold_eval adjacency_eval looseFace_def looseFaceOrder_def looseFaceResult_def)






text \<open>
  C8. In a result of \<^verbatim>\<open>UnfoldMesh\<close>, a face other than the root whose parent is
  \<open>- 1\<close> has the empty \<^verbatim>\<open>Face2D\<close> it was created with; and, provided the placement code
  writes only the \<^verbatim>\<open>vertex2D\<close> entries of the face it places, a vertex that belongs only to
  such faces has the zero \<^verbatim>\<open>Point2\<close> it was created with.
\<close>

theorem unreached_faces_keep_defaults:
  assumes "UnfoldMesh K poly rootFace order = Ok res"
  shows "length (Face2Ds res) = length (Faces poly) \<and>
    (\<forall>g. inRange g (Faces poly) \<longrightarrow> g \<noteq> rootFace \<longrightarrow> SpanningTree res ! nat g = - 1 \<longrightarrow>
        Face2Ds res ! nat g = \<lparr>Vertices_2D = []\<rparr>) \<and>
    (writesOnlyFace K poly \<longrightarrow>
       length (Vertex2D res) = length (Vertices_poly poly) \<and>
       (\<forall>v. inRange v (Vertices_poly poly) \<longrightarrow>
          (\<forall>h. inRange h (Faces poly) \<longrightarrow> v \<in> set (Vertices (Faces poly ! nat h)) \<longrightarrow>
               h \<noteq> rootFace \<and> SpanningTree res ! nat h = - 1) \<longrightarrow>
          Vertex2D res ! nat v = Point2 0 0))"
proof -
  let ?n = "length (Faces poly)"
  let ?v0 = "replicate (length (Vertices_poly poly)) (Point2 0 0 :: 'a Point2)"
  from UnfoldMesh_Ok_cases[OF assms] obtain adjacency parent face2D vertex2D' where
    r: "0 \<le> rootFace" "rootFace < int ?n"
    and a: "BuildFaceAdjacency poly order = Ok adjacency"
    and lp: "length parent = ?n"
    and root: "placeRootFace K poly rootFace ?v0 = Ok (face2D, vertex2D')"
    and loop: "unfoldLoop K poly adjacency parent ((replicate ?n False)[nat rootFace := True])
       ((replicate ?n \<lparr>Vertices_2D = []\<rparr>)[nat rootFace := face2D]) vertex2D' [rootFace] = Ok res"
    by blast
  have wf: "wellFormed adjacency (length parent)"
    using adjacency_wellFormed[OF a] lp by simp
  from unfoldLoop_outcome[OF wf, of "(replicate ?n False)[nat rootFace := True]"
      "(replicate ?n \<lparr>Vertices_2D = []\<rparr>)[nat rootFace := face2D]" K poly vertex2D' "[rootFace]"]
    loop lp
  have st: "SpanningTree res = parent" and lf: "length (Face2Ds res) = ?n" by simp_all
  have rr: "inRange rootFace (Faces poly)" using r by (simp add: inRange_def)
  have d0: "unplacedDefault parent rootFace ((replicate ?n \<lparr>Vertices_2D = []\<rparr>)[nat rootFace := face2D])"
    unfolding unplacedDefault_def using r
    by (auto simp: inRange_def nth_list_update nat_eq_iff)
  have q0: "\<forall>c \<in> set [rootFace]. 0 \<le> c" using r by simp
  have z0: "writesOnlyFace K poly \<longrightarrow> untouchedZero poly parent rootFace vertex2D'"
  proof
    assume w: "writesOnlyFace K poly"
    have "untouchedZero poly parent rootFace ?v0"
      by (auto simp: untouchedZero_def inRange_def nat_less_iff)
    from untouchedZero_step[OF this placeRootFace_frame[OF root w] rr]
    show "untouchedZero poly parent rootFace vertex2D'" by simp
  qed
  from unfoldLoop_frame[OF loop lp d0 q0 z0]
  have d: "unplacedDefault parent rootFace (Face2Ds res)"
    and z: "writesOnlyFace K poly \<longrightarrow> untouchedZero poly parent rootFace (Vertex2D res)"
    by blast+
  have one: "Face2Ds res ! nat g = \<lparr>Vertices_2D = []\<rparr>"
    if "inRange g (Faces poly)" "g \<noteq> rootFace" "SpanningTree res ! nat g = - 1" for g
    using d that lf st unfolding unplacedDefault_def inRange_def by simp
  have two: "length (Vertex2D res) = length (Vertices_poly poly) \<and>
       (\<forall>v. inRange v (Vertices_poly poly) \<longrightarrow>
          (\<forall>h. inRange h (Faces poly) \<longrightarrow> v \<in> set (Vertices (Faces poly ! nat h)) \<longrightarrow>
               h \<noteq> rootFace \<and> SpanningTree res ! nat h = - 1) \<longrightarrow>
          Vertex2D res ! nat v = Point2 0 0)"
    if w: "writesOnlyFace K poly"
  proof -
    from z w have u: "untouchedZero poly parent rootFace (Vertex2D res)" by simp
    then have l: "length (Vertex2D res) = length (Vertices_poly poly)"
      by (simp add: untouchedZero_def)
    have "Vertex2D res ! nat v = Point2 0 0"
      if "inRange v (Vertices_poly poly)"
        "\<forall>h. inRange h (Faces poly) \<longrightarrow> v \<in> set (Vertices (Faces poly ! nat h)) \<longrightarrow>
               h \<noteq> rootFace \<and> SpanningTree res ! nat h = - 1" for v
    proof -
      from that(2) st have "untouched poly parent rootFace v" by (simp add: untouched_def)
      moreover from that(1) l have "inRange v (Vertex2D res)" by (simp add: inRange_def)
      ultimately show ?thesis using u unfolding untouchedZero_def by blast
    qed
    with l show ?thesis by blast
  qed
  show ?thesis using lf one two by blast
qed

theorem unreached_faces_keep_defaults_witness:
  "validOrder looseFace looseFaceOrder \<and>
   UnfoldMesh specKernel looseFace 0 looseFaceOrder = Ok looseFaceResult \<and>
   writesOnlyFace specKernel looseFace \<and>
   SpanningTree looseFaceResult ! nat 2 = - 1 \<and>
   Face2Ds looseFaceResult ! nat 2 = \<lparr>Vertices_2D = []\<rparr> \<and>
   Vertex2D looseFaceResult ! nat 4 = Point2 0 0"
proof -
  note t = unreached_faces_keep_defaults[OF looseFace_unfolded]
  have s: "SpanningTree looseFaceResult ! nat 2 = - 1" by (simp add: looseFaceResult_def)
  have r: "inRange 2 (Faces looseFace)" "inRange 4 (Vertices_poly looseFace)"
    by (simp_all add: inRange_def looseFace_def)
  have ne: "(2 :: int) \<noteq> 0" by simp
  from t r(1) s ne have f: "Face2Ds looseFaceResult ! nat 2 = \<lparr>Vertices_2D = []\<rparr>" by blast
  have u: "\<forall>h. inRange h (Faces looseFace) \<longrightarrow> 4 \<in> set (Vertices (Faces looseFace ! nat h)) \<longrightarrow>
               h \<noteq> 0 \<and> SpanningTree looseFaceResult ! nat h = - 1"
  proof (intro allI impI)
    fix h assume "inRange h (Faces looseFace)" "4 \<in> set (Vertices (Faces looseFace ! nat h))"
    then have "h = 0 \<or> h = 1 \<or> h = 2" "4 \<in> set (Vertices (Faces looseFace ! nat h))"
      by (auto simp: inRange_def looseFace_def)
    then show "h \<noteq> 0 \<and> SpanningTree looseFaceResult ! nat h = - 1"
      by (auto simp: looseFace_def looseFaceResult_def)
  qed
  from t specKernel_writesOnlyFace[of looseFace] r(2) u
  have "Vertex2D looseFaceResult ! nat 4 = Point2 0 0" by blast
  with looseFace_unfolded specKernel_writesOnlyFace s f looseFace_validOrder
  show ?thesis by blast
qed

text \<open>
  C5, as the code has it. The result depends on the order in which the run iterates
  over the edge map. For two iteration orders of the same mesh the neighbour lists of
  every face hold the same entries, in a possibly different order, and two results of
  \<^verbatim>\<open>UnfoldMesh\<close> leave the same faces without a parent.
\<close>

theorem results_up_to_iteration_order:
  assumes "validOrder poly o1" "validOrder poly o2"
  shows "\<exists>a1 a2. BuildFaceAdjacency poly o1 = Ok a1 \<and> BuildFaceAdjacency poly o2 = Ok a2 \<and>
     (\<forall>f. mset (lookupList (Neighbors a1) f) = mset (lookupList (Neighbors a2) f)) \<and>
     (\<forall>r1 r2. UnfoldMesh K poly rootFace o1 = Ok r1 \<longrightarrow> UnfoldMesh K poly rootFace o2 = Ok r2 \<longrightarrow>
        (\<forall>f. inRange f (Faces poly) \<longrightarrow>
           (SpanningTree r1 ! nat f = - 1 \<longleftrightarrow> SpanningTree r2 ! nat f = - 1)))"
proof -
  obtain a1 a2 where a: "BuildFaceAdjacency poly o1 = Ok a1" "BuildFaceAdjacency poly o2 = Ok a2"
    using BuildFaceAdjacency_Ok by blast
  from a have e: "emitAll (Faces poly) (populate (Faces poly)) o1 Map.empty = Ok (Neighbors a1)"
    "emitAll (Faces poly) (populate (Faces poly)) o2 Map.empty = Ok (Neighbors a2)"
    by (auto simp: BuildFaceAdjacency_def split: result.splits)
  have m: "mset (lookupList (Neighbors a1) f) = mset (lookupList (Neighbors a2) f)" for f
    using emitAll_adds[OF e(1), of f] emitAll_adds[OF e(2), of f] validOrder_mset[OF assms]
    by simp
  then have E: "faceEdge a1 = faceEdge a2" by (intro faceEdge_mset) simp
  have t: "SpanningTree r1 ! nat f = - 1 \<longleftrightarrow> SpanningTree r2 ! nat f = - 1"
    if u: "UnfoldMesh K poly rootFace o1 = Ok r1" "UnfoldMesh K poly rootFace o2 = Ok r2"
      and f: "inRange f (Faces poly)" for r1 r2 f
  proof -
    from UnfoldMesh_tree[OF u(1)] a(1) have
      t1: "BuildFaceSpanningTree a1 rootFace (int (length (Faces poly))) = Ok (SpanningTree r1)"
      and l1: "length (SpanningTree r1) = length (Faces poly)" by auto
    from UnfoldMesh_tree[OF u(2)] a(2) have
      t2: "BuildFaceSpanningTree a2 rootFace (int (length (Faces poly))) = Ok (SpanningTree r2)"
      and l2: "length (SpanningTree r2) = length (Faces poly)" by auto
    from f l1 l2 have "inRange f (SpanningTree r1)" "inRange f (SpanningTree r2)"
      by (simp_all add: inRange_def)
    from no_parent_iff[OF t1 this(1)] no_parent_iff[OF t2 this(2)] E show ?thesis by simp
  qed
  from a m t show ?thesis by blast
qed

theorem results_up_to_iteration_order_witness:
  "validOrder unitCube cubeOrder1 \<and> validOrder unitCube cubeOrder2 \<and>
   (\<exists>a1 a2. BuildFaceAdjacency unitCube cubeOrder1 = Ok a1 \<and>
      BuildFaceAdjacency unitCube cubeOrder2 = Ok a2 \<and>
      mset (lookupList (Neighbors a1) 0) = mset (lookupList (Neighbors a2) 0))"
  using results_up_to_iteration_order[OF cube_validOrder1 cube_validOrder2]
    cube_validOrder1 cube_validOrder2 by blast

text \<open>
  C5 as stated fails: on the unit cube, unfolded from face 0, two iteration orders that
  differ in their first two keys give different parent arrays and different
  coordinates.
\<close>

theorem iteration_order_changes_result:
  "validOrder unitCube cubeOrder1 \<and> validOrder unitCube cubeOrder2 \<and>
   UnfoldMesh specKernel unitCube 0 cubeOrder1 =
     Ok \<lparr>Vertex2D = [Point2 0 0, Point2 1 0, Point2 1 1, Point2 0 1,
                     Point2 1 0, Point2 0 0, Point2 0 (- 1), Point2 1 (- 1)],
         Face2Ds = [\<lparr>Vertices_2D = [Point2 0 0, Point2 1 0, Point2 1 1, Point2 0 1]\<rparr>,
                    \<lparr>Vertices_2D = [Point2 1 0, Point2 0 0, Point2 0 (- 1), Point2 1 (- 1)]\<rparr>,
                    \<lparr>Vertices_2D = [Point2 0 0, Point2 1 0, Point2 1 1, Point2 0 1]\<rparr>,
                    \<lparr>Vertices_2D = [Point2 1 0, Point2 1 1, Point2 0 1, Point2 0 0]\<rparr>,
                    \<lparr>Vertices_2D = [Point2 1 1, Point2 0 1, Point2 0 0, Point2 1 0]\<rparr>,
                    \<lparr>Vertices_2D = [Point2 0 1, Point2 0 0, Point2 1 0, Point2 1 1]\<rparr>],
         SpanningTree = [- 1, 2, 0, 0, 0, 0]\<rparr> \<and>
   UnfoldMesh specKernel unitCube 0 cubeOrder2 =
     Ok \<lparr>Vertex2D = [Point2 0 0, Point2 1 0, Point2 1 1, Point2 0 1,
                     Point2 2 1, Point2 1 1, Point2 1 0, Point2 2 0],
         Face2Ds = [\<lparr>Vertices_2D = [Point2 0 0, Point2 1 0, Point2 1 1, Point2 0 1]\<rparr>,
                    \<lparr>Vertices_2D = [Point2 2 1, Point2 1 1, Point2 1 0, Point2 2 0]\<rparr>,
                    \<lparr>Vertices_2D = [Point2 0 0, Point2 1 0, Point2 1 1, Point2 0 1]\<rparr>,
                    \<lparr>Vertices_2D = [Point2 1 0, Point2 1 1, Point2 0 1, Point2 0 0]\<rparr>,
                    \<lparr>Vertices_2D = [Point2 1 1, Point2 0 1, Point2 0 0, Point2 1 0]\<rparr>,
                    \<lparr>Vertices_2D = [Point2 0 1, Point2 0 0, Point2 1 0, Point2 1 1]\<rparr>],
         SpanningTree = [- 1, 3, 0, 0, 0, 0]\<rparr>"
proof (intro conjI)
  show "validOrder unitCube cubeOrder1" by (rule cube_validOrder1)
  show "validOrder unitCube cubeOrder2" by (rule cube_validOrder2)
qed (simp_all add: unfold_eval adjacency_eval unitCube_def cubeOrder1_def cubeOrder2_def)

section \<open>Coordinates\<close>

text \<open>
  C2 and C7 speak of the \<^verbatim>\<open>float64\<close> coordinates that the projection in
  \<^verbatim>\<open>placeRootFace\<close> and the transform in \<^verbatim>\<open>placeAdjacentFace\<close> compute. Both lie past the
  end of the file, and what they hold of rounded arithmetic is not expressed over the
  abstract scalar type of this model; they are not formalised here.
\<close>

end
